theory Spec2Isabelle
  imports Complex_Main "HOL-Library.Word" "HOL-Library.Sublist"
begin

section \<open>Machine types\<close>

text \<open>
  The target is a 32-bit ESP32: \<open>size_t\<close> is an unsigned 32-bit integer, \<open>int16_t\<close> a
  signed 16-bit one, \<open>uint8_t\<close> a byte. Arithmetic on them wraps around.
\<close>

type_synonym byte = "8 word"
type_synonym int16 = "16 word"
type_synonym size_t = "32 word"

section \<open>MP3Player::applyVolume\<close>

text \<open>
  The cast \<open>(int16_t)(samples[i] * volume)\<close>: the sample is promoted to \<open>float\<close>, multiplied,
  and the product is truncated towards zero. The product is taken over the reals here,
  where the code rounds it to \<open>float\<close> before truncating it: for a volume strictly between
  0 and 1 a scaled sample of the code can differ by one from the value computed here. The
  two guards of the function compare the volume with the constants 0 and 1 only.
\<close>

definition towardsZero :: "real \<Rightarrow> int" where
  "towardsZero y = (if 0 \<le> y then \<lfloor>y\<rfloor> else \<lceil>y\<rceil>)"

definition truncate_to_int16 :: "real \<Rightarrow> int16" where
  "truncate_to_int16 y = word_of_int (towardsZero y)"

definition applyVolume :: "int16 list \<Rightarrow> real \<Rightarrow> int16 list" where
  "applyVolume samples volume =
     (if length samples = 0 \<or> volume \<le> 0 then samples
      else if volume \<ge> 1 then samples
      else map (\<lambda>s. truncate_to_int16 (real_of_int (sint s) * volume)) samples)"

section \<open>MP3Decoder: data\<close>

record MP3Info =
  sampleRate :: int
  channels :: int
  bitRate :: int
  duration :: int
  valid :: bool

text \<open>The fields of the Helix \<open>MP3FrameInfo\<close> structure that the decoder reads.\<close>

record MP3FrameInfo =
  bitrate :: int
  nChans :: int
  samprate :: int
  outputSamps :: int

text \<open>
  The Helix library (\<open>mp3dec.h\<close>), the SPIFFS file system and the heap are outside the
  repository; they are parameters of the model. \<open>'h\<close> is the state behind the
  \<open>HMP3Decoder\<close> handle.
  \<^item> \<open>MP3FindSyncWord\<close> gets the unread window and returns an offset, or a negative number.
  \<^item> \<open>MP3GetNextFrameInfo\<close> gets the handle and the window at the sync position and returns
    its status, the frame information and the handle's new state.
  \<^item> \<open>MP3Decode\<close> updates \<open>_readPtr\<close> and \<open>_bytesLeft\<close> through the pointers it is given:
    it returns its status, the number of bytes by which it moved them, the PCM block it
    left in the output buffer and the handle's new state.
  \<^item> \<open>spiffs\<close> maps a path to the file's bytes; \<open>heap_ok n\<close> tells whether an allocation
    of \<open>n\<close> bytes succeeds.
  The library is C code and raises no exception, so the handler around the \<open>MP3Decode\<close>
  call has no branch in the model.
\<close>

record 'h platform =
  MP3FindSyncWord :: "byte list \<Rightarrow> int"
  MP3GetNextFrameInfo :: "'h \<Rightarrow> byte list \<Rightarrow> int \<times> MP3FrameInfo \<times> 'h"
  MP3Decode :: "'h \<Rightarrow> byte list \<Rightarrow> int \<times> nat \<times> int16 list \<times> 'h"
  ERR_MP3_INDATA_UNDERFLOW :: int
  spiffs :: "string \<Rightarrow> byte list option"
  heap_ok :: "nat \<Rightarrow> bool"

text \<open>
  The decoder object. \<open>streamBuffer\<close> is the content of the block \<open>_streamBuffer\<close> points
  to (\<open>[]\<close> when there is none), \<open>readPtr\<close> the offset of \<open>_readPtr\<close> from its start,
  \<open>streamFile\<close> the bytes of the open file that have not been read yet (\<open>None\<close> when no
  file is open).
\<close>

record 'h MP3Decoder =
  decoder :: 'h
  initialized :: bool
  streaming :: bool
  streamBuffer :: "byte list"
  streamFile :: "byte list option"
  bytesLeft :: size_t
  readPtr :: nat
  firstFrame :: bool
  streamInfo :: MP3Info
  outputBuffer :: "int16 list"

definition INPUT_BUFFER_SIZE :: nat where
  "INPUT_BUFFER_SIZE = 2048"

definition STREAM_BUFFER_SIZE :: nat where
  "STREAM_BUFFER_SIZE = 8192"

text \<open>
  The bytes the codec is shown: \<open>_bytesLeft\<close> bytes from \<open>_readPtr\<close>, as far as the block
  reaches. The code passes the count as an \<open>int\<close>; a count of \<open>2^31\<close> or more, which that cast
  makes negative, arises only after the count has wrapped around below 0.
\<close>

definition window :: "'h MP3Decoder \<Rightarrow> byte list" where
  "window s = take (unat (bytesLeft s)) (drop (readPtr s) (streamBuffer s))"

text \<open>\<open>_streamFile.available()\<close>: the number of bytes left in the open file.\<close>

definition available :: "'h MP3Decoder \<Rightarrow> nat" where
  "available s = (case streamFile s of None \<Rightarrow> 0 | Some f \<Rightarrow> length f)"

text \<open>Writing the bytes \<open>bs\<close> into a block at offset \<open>off\<close> (\<open>memmove\<close>, \<open>File::read\<close>).\<close>

definition store :: "byte list \<Rightarrow> nat \<Rightarrow> byte list \<Rightarrow> byte list" where
  "store buf off bs = take off buf @ bs @ drop (off + length bs) buf"

section \<open>MP3Decoder::fillStreamBuffer, stopStreaming\<close>

definition fillStreamBuffer :: "'h MP3Decoder \<Rightarrow> bool \<times> 'h MP3Decoder" where
  "fillStreamBuffer s =
     (case streamFile s of
        None \<Rightarrow> (False, s)
      | Some f \<Rightarrow>
          if length f = 0 then (False, s)
          else
            let s1 = (if bytesLeft s > 0 \<and> readPtr s \<noteq> 0
                      then s\<lparr>streamBuffer := store (streamBuffer s) 0 (window s)\<rparr>
                      else s);
                s2 = s1\<lparr>readPtr := 0\<rparr>;
                spaceLeft = (of_nat STREAM_BUFFER_SIZE - bytesLeft s2 :: size_t);
                chunk = take (unat spaceLeft) f;
                bytesRead = length chunk;
                s3 = s2\<lparr>streamBuffer := store (streamBuffer s2) (unat (bytesLeft s2)) chunk,
                        streamFile := Some (drop bytesRead f)\<rparr>
            in if bytesRead = 0 then (False, s3)
               else (True, s3\<lparr>bytesLeft := bytesLeft s3 + of_nat bytesRead\<rparr>))"

definition stopStreaming :: "'h MP3Decoder \<Rightarrow> 'h MP3Decoder" where
  "stopStreaming s =
     (if \<not> streaming s then s
      else s\<lparr>streaming := False, streamFile := None, streamBuffer := [],
             bytesLeft := 0, readPtr := 0\<rparr>)"

section \<open>MP3Decoder::processStreamFrame\<close>

text \<open>
  The stream callback is arbitrary code: besides its own state \<open>'p\<close> it can reach the
  decoder object, so it maps both. It receives the output buffer, the sample count and
  the stream information.
\<close>

type_synonym ('h, 'p) StreamCallback =
  "int16 list \<Rightarrow> size_t \<Rightarrow> MP3Info \<Rightarrow> 'h MP3Decoder \<times> 'p \<Rightarrow> bool \<times> 'h MP3Decoder \<times> 'p"

text \<open>
  Every recursive call of \<open>processStreamFrame\<close> is a tail call \<open>return processStreamFrame()\<close>.
  One pass through the body either returns (\<open>Return\<close>) or makes that call (\<open>Again\<close>).
\<close>

datatype 'w outcome = Return bool 'w | Again 'w

text \<open>\<open>if (!fillStreamBuffer()) return false; return processStreamFrame();\<close>\<close>

definition refillAndRetry :: "'h MP3Decoder \<Rightarrow> 'p \<Rightarrow> ('h MP3Decoder \<times> 'p) outcome" where
  "refillAndRetry s p =
     (case fillStreamBuffer s of
        (False, s') \<Rightarrow> Return False (s', p)
      | (True, s') \<Rightarrow> Again (s', p))"

text \<open>\<open>_readPtr++; _bytesLeft--;\<close>\<close>

definition skipByte :: "'h MP3Decoder \<Rightarrow> 'h MP3Decoder" where
  "skipByte s = s\<lparr>readPtr := readPtr s + 1, bytesLeft := bytesLeft s - 1\<rparr>"

definition skipAndRetry :: "'h MP3Decoder \<Rightarrow> 'p \<Rightarrow> ('h MP3Decoder \<times> 'p) outcome" where
  "skipAndRetry s p =
     (let s' = skipByte s
      in if bytesLeft s' = 0 then refillAndRetry s' p else Again (s', p))"

text \<open>The block guarded by \<open>_firstFrame\<close>.\<close>

definition latchStreamInfo :: "MP3FrameInfo \<Rightarrow> 'h MP3Decoder \<Rightarrow> 'h MP3Decoder" where
  "latchStreamInfo frameInfo s =
     (if firstFrame s
      then s\<lparr>streamInfo := (streamInfo s)\<lparr>sampleRate := samprate frameInfo,
                                           channels := nChans frameInfo,
                                           bitRate := bitrate frameInfo,
                                           valid := True\<rparr>,
             firstFrame := False\<rparr>
      else s)"

text \<open>The end of the body, after the callback let the stream continue.\<close>

definition topUp :: "'h MP3Decoder \<Rightarrow> 'h MP3Decoder" where
  "topUp s =
     (if unat (bytesLeft s) < INPUT_BUFFER_SIZE \<and> available s \<noteq> 0
      then snd (fillStreamBuffer s) else s)"

text \<open>The part of the body after a successful \<open>MP3Decode\<close>: the callback and the top-up.\<close>

definition deliver ::
  "('h, 'p) StreamCallback option \<Rightarrow> MP3FrameInfo \<Rightarrow> 'h MP3Decoder \<Rightarrow> 'p
     \<Rightarrow> ('h MP3Decoder \<times> 'p) outcome" where
  "deliver cb frameInfo s p =
     (case cb of
        None \<Rightarrow> Return True (topUp s, p)
      | Some f \<Rightarrow>
          (case f (outputBuffer s) (of_int (outputSamps frameInfo)) (streamInfo s) (s, p) of
             (continue, s', p') \<Rightarrow>
               if \<not> continue then Return False (stopStreaming s', p')
               else Return True (topUp s', p')))"

text \<open>The part of the body from the \<open>MP3Decode\<close> call on.\<close>

definition decodeFrame ::
  "'h platform \<Rightarrow> ('h, 'p) StreamCallback option \<Rightarrow> MP3FrameInfo \<Rightarrow> 'h MP3Decoder \<Rightarrow> 'p
     \<Rightarrow> ('h MP3Decoder \<times> 'p) outcome" where
  "decodeFrame pf cb frameInfo s p =
     (case MP3Decode pf (decoder s) (window s) of
        (result2, consumed, pcm, h2) \<Rightarrow>
          let s' = s\<lparr>decoder := h2,
                     readPtr := readPtr s + consumed,
                     bytesLeft := bytesLeft s - of_nat consumed,
                     outputBuffer := pcm\<rparr>
          in if result2 \<noteq> 0
             then if result2 = ERR_MP3_INDATA_UNDERFLOW pf
                  then refillAndRetry s' p
                  else skipAndRetry s' p
             else deliver cb frameInfo s' p)"

text \<open>\<open>_readPtr += offset; _bytesLeft -= offset;\<close>\<close>

definition moveToSync :: "int \<Rightarrow> 'h MP3Decoder \<Rightarrow> 'h MP3Decoder" where
  "moveToSync offset s =
     s\<lparr>readPtr := readPtr s + nat offset, bytesLeft := bytesLeft s - of_int offset\<rparr>"

definition attempt ::
  "'h platform \<Rightarrow> ('h, 'p) StreamCallback option \<Rightarrow> 'h MP3Decoder \<times> 'p
     \<Rightarrow> ('h MP3Decoder \<times> 'p) outcome" where
  "attempt pf cb w =
     (case w of (s, p) \<Rightarrow>
      if \<not> streaming s \<or> \<not> initialized s then Return False (s, p)
      else
        let offset = MP3FindSyncWord pf (window s)
        in if offset < 0 then refillAndRetry s p
           else
             let s1 = moveToSync offset s
             in case MP3GetNextFrameInfo pf (decoder s1) (window s1) of
                  (result, frameInfo, h1) \<Rightarrow>
                    if result \<noteq> 0 then skipAndRetry (s1\<lparr>decoder := h1\<rparr>) p
                    else decodeFrame pf cb frameInfo
                           (latchStreamInfo frameInfo (s1\<lparr>decoder := h1\<rparr>)) p)"

text \<open>
  The recursion of \<open>processStreamFrame\<close>, with a bound on the number of passes: \<open>None\<close>
  means that the bound was reached before the function returned.
\<close>

fun processStreamFrame ::
  "nat \<Rightarrow> 'h platform \<Rightarrow> ('h, 'p) StreamCallback option \<Rightarrow> 'h MP3Decoder \<times> 'p
     \<Rightarrow> (bool \<times> 'h MP3Decoder \<times> 'p) option" where
  "processStreamFrame 0 pf cb w = None"
| "processStreamFrame (Suc n) pf cb w =
     (case attempt pf cb w of
        Return b w' \<Rightarrow> Some (b, w')
      | Again w' \<Rightarrow> processStreamFrame n pf cb w')"

section \<open>MP3Decoder::getFileInfo, startStreaming\<close>

definition getFileInfo ::
  "'h platform \<Rightarrow> string \<Rightarrow> MP3Info \<Rightarrow> 'h MP3Decoder \<Rightarrow> bool \<times> MP3Info \<times> 'h MP3Decoder" where
  "getFileInfo pf filePath info s =
     (if \<not> initialized s then (False, info, s)
      else case spiffs pf filePath of
        None \<Rightarrow> (False, info, s)
      | Some content \<Rightarrow>
          let fileSize = length content
          in if fileSize = 0 then (False, info, s)
             else
               let readSize = min fileSize 4096
               in if \<not> heap_ok pf readSize then (False, info, s)
                  else
                    let buffer = take readSize content;
                        bytesRead = length buffer
                    in if bytesRead = 0 then (False, info, s)
                       else
                         let offset = MP3FindSyncWord pf buffer
                         in if offset < 0 then (False, info, s)
                            else
                              case MP3GetNextFrameInfo pf (decoder s) (drop (nat offset) buffer) of
                                (result, frameInfo, h1) \<Rightarrow>
                                  if result \<noteq> 0 then (False, info, s\<lparr>decoder := h1\<rparr>)
                                  else
                                    (True,
                                     info\<lparr>sampleRate := samprate frameInfo,
                                          channels := nChans frameInfo,
                                          bitRate := bitrate frameInfo,
                                          valid := True,
                                          duration :=
                                            (if bitrate frameInfo > 0
                                             then sint (word_of_nat (fileSize * 8) div
                                                        (word_of_int (bitrate frameInfo) :: size_t))
                                             else 0)\<rparr>,
                                     s\<lparr>decoder := h1\<rparr>))"

text \<open>
  \<open>startStreaming\<close> stores the callback in \<open>_callback\<close>; the model passes the same
  callback to \<open>processStreamFrame\<close>. The fresh stream buffer is taken to hold zeros.
\<close>

definition startStreaming ::
  "'h platform \<Rightarrow> string \<Rightarrow> 'h MP3Decoder \<Rightarrow> bool \<times> 'h MP3Decoder" where
  "startStreaming pf filePath s =
     (if \<not> initialized s \<or> streaming s then (False, s)
      else case spiffs pf filePath of
        None \<Rightarrow> (False, s\<lparr>streamFile := None\<rparr>)
      | Some content \<Rightarrow>
          let s1 = s\<lparr>streamFile := Some content\<rparr>
          in if \<not> heap_ok pf STREAM_BUFFER_SIZE
             then (False, s1\<lparr>streamBuffer := [], streamFile := None\<rparr>)
             else
               let s2 = s1\<lparr>streamBuffer := replicate STREAM_BUFFER_SIZE 0\<rparr>
               in case getFileInfo pf filePath (streamInfo s2) s2 of
                    (ok, info, s3) \<Rightarrow>
                      if \<not> ok then (False, s3\<lparr>streamBuffer := [], streamFile := None\<rparr>)
                      else
                        let s4 = s3\<lparr>streamInfo := info, bytesLeft := 0, readPtr := 0,
                                   firstFrame := True, streaming := True\<rparr>
                        in case fillStreamBuffer s4 of
                             (False, s5) \<Rightarrow> (False, stopStreaming s5)
                           | (True, s5) \<Rightarrow> (True, s5))"

section \<open>The stream buffer invariant\<close>

text \<open>
  The read position is \<open>readPtr\<close>, the fill level \<open>readPtr + bytesLeft\<close>, the capacity
  \<open>STREAM_BUFFER_SIZE\<close>; while streaming the block has that size.
\<close>

definition bufferOK :: "'h MP3Decoder \<Rightarrow> bool" where
  "bufferOK s \<longleftrightarrow>
     readPtr s + unat (bytesLeft s) \<le> STREAM_BUFFER_SIZE \<and>
     (streaming s \<longrightarrow> length (streamBuffer s) = STREAM_BUFFER_SIZE)"

text \<open>The decoder after a refill that took \<open>chunk\<close> from the file content \<open>f\<close>.\<close>

definition afterFill :: "'h MP3Decoder \<Rightarrow> byte list \<Rightarrow> byte list \<Rightarrow> 'h MP3Decoder" where
  "afterFill s f chunk =
     s\<lparr>streamBuffer :=
          store (if bytesLeft s > 0 \<and> readPtr s \<noteq> 0
                 then store (streamBuffer s) 0 (window s) else streamBuffer s)
                (unat (bytesLeft s)) chunk,
       readPtr := 0,
       streamFile := Some (drop (length chunk) f),
       bytesLeft := bytesLeft s + of_nat (length chunk)\<rparr>"

section \<open>A small codec and decoder states for concrete runs\<close>

text \<open>
  A stand-in for the Helix library with four-byte frames \<open>FF FB x y\<close>. The sync search
  returns the offset of the first \<open>FF\<close> byte. Frame information is accepted when the window
  starts with \<open>FF FB\<close>, and reports \<open>y\<close> channels. Decoding reports underflow (\<open>-1\<close>) on fewer than four bytes; with
  \<open>x = 0\<close> it fails with \<open>-2\<close> after moving past the frame (as Helix does when the
  frame's main data is unusable); with \<open>x = 1\<close> it fails with \<open>-6\<close> without moving; otherwise
  it succeeds, moves past the frame and yields the samples \<open>x\<close> and \<open>y\<close>.
\<close>

definition demoFrameInfo :: MP3FrameInfo where
  "demoFrameInfo = \<lparr>bitrate = 128, nChans = 2, samprate = 44100, outputSamps = 2\<rparr>"

definition demoPlatform :: "byte list \<Rightarrow> unit platform" where
  "demoPlatform content =
     \<lparr>MP3FindSyncWord =
        (\<lambda>w. if 255 \<in> set w then int (length (takeWhile (\<lambda>b. b \<noteq> 255) w)) else - 1),
      MP3GetNextFrameInfo =
        (\<lambda>h w. if take 2 w = [255, 251]
                then (0, demoFrameInfo\<lparr>nChans := uint (w ! 3)\<rparr>, h)
                else (- 6, demoFrameInfo, h)),
      MP3Decode =
        (\<lambda>h w. if length w < 4 then (- 1, 0, [], h)
                else if w ! 2 = 0 then (- 2, 4, [], h)
                else if w ! 2 = 1 then (- 6, 0, [], h)
                else (0, 4, [ucast (w ! 2), ucast (w ! 3)], h)),
      ERR_MP3_INDATA_UNDERFLOW = - 1,
      spiffs = (\<lambda>path. if path = ''/a.mp3'' then Some content else None),
      heap_ok = (\<lambda>n. True)\<rparr>"

definition noInfo :: MP3Info where
  "noInfo = \<lparr>sampleRate = 0, channels = 0, bitRate = 0, duration = 0, valid = False\<rparr>"

text \<open>
  A streaming decoder whose buffer starts with the bytes \<open>bs\<close>, all of them unread, and
  whose file still holds \<open>f\<close>.
\<close>

definition demoDecoder :: "byte list \<Rightarrow> byte list \<Rightarrow> unit MP3Decoder" where
  "demoDecoder bs f =
     \<lparr>decoder = (), initialized = True, streaming = True,
      streamBuffer = bs @ replicate (STREAM_BUFFER_SIZE - length bs) 0,
      streamFile = Some f, bytesLeft = of_nat (length bs), readPtr = 0, firstFrame = True,
      streamInfo = noInfo, outputBuffer = []\<rparr>"

text \<open>An initialised decoder that is not streaming.\<close>

definition idleDecoder :: "unit MP3Decoder" where
  "idleDecoder =
     \<lparr>decoder = (), initialized = True, streaming = False, streamBuffer = [],
      streamFile = None, bytesLeft = 0, readPtr = 0, firstFrame = True,
      streamInfo = noInfo, outputBuffer = []\<rparr>"

definition demoInfo :: MP3Info where
  "demoInfo = \<lparr>sampleRate = 44100, channels = 2, bitRate = 128, duration = 0, valid = True\<rparr>"

text \<open>
  A file that is one frame whose decoding fails after the frame has been passed, and the
  decoder that \<open>startStreaming\<close> leaves for it.
\<close>

definition badFrameFile :: "byte list" where
  "badFrameFile = [255, 251, 0, 2]"

definition badFrameStarted :: "unit MP3Decoder" where
  "badFrameStarted = (demoDecoder badFrameFile [])\<lparr>streamInfo := demoInfo\<rparr>"

text \<open>
  A file with a frame of two channels whose decoding fails, a filler byte, and a frame of
  one channel that decodes; the decoder that \<open>startStreaming\<close> leaves for it.
\<close>

definition twoFrameFile :: "byte list" where
  "twoFrameFile = [255, 251, 0, 2, 0, 255, 251, 9, 1]"

definition twoFrameStarted :: "unit MP3Decoder" where
  "twoFrameStarted = (demoDecoder twoFrameFile [])\<lparr>streamInfo := demoInfo\<rparr>"

section \<open>Stream metadata\<close>

text \<open>A callback that leaves the stream information and the first-frame flag alone.\<close>

definition keepsStreamInfo :: "('h, 'p) StreamCallback option \<Rightarrow> bool" where
  "keepsStreamInfo cb \<longleftrightarrow>
     (\<forall>f d n i s p c s' p'. cb = Some f \<longrightarrow> f d n i (s, p) = (c, s', p') \<longrightarrow>
        streamInfo s' = streamInfo s \<and> firstFrame s' = firstFrame s)"

fun outcomeDecoder :: "('h MP3Decoder \<times> 'p) outcome \<Rightarrow> 'h MP3Decoder" where
  "outcomeDecoder (Return b w) = fst w"
| "outcomeDecoder (Again w) = fst w"

text \<open>The values the \<open>_firstFrame\<close> block writes.\<close>

definition latched :: "MP3FrameInfo \<Rightarrow> MP3Info \<Rightarrow> MP3Info" where
  "latched fi info =
     info\<lparr>sampleRate := samprate fi, channels := nChans fi, bitRate := bitrate fi, valid := True\<rparr>"

definition infoKept :: "'h MP3Decoder \<Rightarrow> 'h MP3Decoder \<Rightarrow> bool" where
  "infoKept s s' \<longleftrightarrow> streamInfo s' = streamInfo s \<and> firstFrame s' = firstFrame s"

text \<open>
  A pass of \<open>processStreamFrame\<close> reaches the \<open>_firstFrame\<close> block with the flag set: the
  decoder is streaming, the sync search finds an offset and the frame-information call
  at that offset succeeds. \<open>frameInfoAt\<close> is what that call reports.
\<close>

definition frameInfoCall :: "'h platform \<Rightarrow> 'h MP3Decoder \<Rightarrow> int \<times> MP3FrameInfo \<times> 'h" where
  "frameInfoCall pf s =
     (let s1 = moveToSync (MP3FindSyncWord pf (window s)) s
      in MP3GetNextFrameInfo pf (decoder s1) (window s1))"

definition latchesNow :: "'h platform \<Rightarrow> 'h MP3Decoder \<Rightarrow> bool" where
  "latchesNow pf s \<longleftrightarrow>
     streaming s \<and> initialized s \<and> firstFrame s \<and> 0 \<le> MP3FindSyncWord pf (window s) \<and>
     fst (frameInfoCall pf s) = 0"

section \<open>The unread stream\<close>

text \<open>The unread bytes of the buffer followed by the bytes of the file not read yet.\<close>

definition unreadStream :: "'h MP3Decoder \<Rightarrow> byte list" where
  "unreadStream s = window s @ (case streamFile s of None \<Rightarrow> [] | Some f \<Rightarrow> f)"

text \<open>
  A file of 8197 bytes: one frame that decodes, then bytes without a sync word. The
  decoder that \<open>startStreaming\<close> leaves for it, and the decoder once the buffer is full of
  those bytes with one byte still in the file.
\<close>

definition tailFile :: "byte list" where
  "tailFile = [255, 251, 9, 1] @ replicate 8188 7 @ [7, 7, 7, 7, 7]"

definition tailInfo :: MP3Info where
  "tailInfo = \<lparr>sampleRate = 44100, channels = 1, bitRate = 128, duration = 512, valid = True\<rparr>"

definition tailStarted :: "unit MP3Decoder" where
  "tailStarted =
     (demoDecoder ([255, 251, 9, 1] @ replicate 8188 7) [7, 7, 7, 7, 7])\<lparr>streamInfo := tailInfo\<rparr>"

definition tailDecoded :: "unit MP3Decoder" where
  "tailDecoded =
     tailStarted\<lparr>firstFrame := False, readPtr := 4, bytesLeft := 8188, outputBuffer := [9, 1]\<rparr>"

definition tailFull :: "unit MP3Decoder" where
  "tailFull =
     (demoDecoder [] [7])\<lparr>streamBuffer := replicate 8188 7 @ [7, 7, 7, 7], bytesLeft := 8192,
        streamInfo := tailInfo, firstFrame := False, outputBuffer := [9, 1]\<rparr>"

section \<open>I2SSpeaker\<close>

text \<open>Status codes of the ESP-IDF (\<open>esp_err.h\<close>).\<close>

definition ESP_OK :: int where
  "ESP_OK = 0"

definition ESP_ERR_INVALID_ARG :: int where
  "ESP_ERR_INVALID_ARG = 258"

definition ESP_ERR_INVALID_STATE :: int where
  "ESP_ERR_INVALID_STATE = 259"

text \<open>
  The speaker object and the I2S driver behind it. \<open>enableStatus\<close> is what
  \<open>i2s_channel_enable\<close> will return. \<open>pending\<close> says what the coming calls of
  \<open>i2s_channel_write\<close> made for sample blocks will do, one entry a call: the status the
  call returns, and whether the other control path calls \<open>MP3Player::stop()\<close> while the
  call is blocked (when the list is empty the call returns \<open>ESP_OK\<close> and nothing else
  happens). \<open>written\<close> records the sample blocks handed to the driver, in order, and
  \<open>silences\<close> counts the silence blocks that \<open>clear\<close> wrote.
\<close>

record I2SSpeaker =
  spkInitialized :: bool
  active :: bool
  enableStatus :: int
  pending :: "(int \<times> bool) list"
  written :: "int16 list list"
  silences :: nat

definition start :: "I2SSpeaker \<Rightarrow> int \<times> I2SSpeaker" where
  "start spk =
     (if \<not> spkInitialized spk then (ESP_ERR_INVALID_STATE, spk)
      else if active spk then (ESP_OK, spk)
      else if enableStatus spk \<noteq> ESP_OK then (enableStatus spk, spk)
      else (ESP_OK, spk\<lparr>active := True\<rparr>))"

text \<open>
  \<open>writeSamples\<close> and, inlined, \<open>writeAudioData\<close>, which is given
  \<open>sampleCount * sizeof(int16_t)\<close> as its size, a \<open>size_t\<close>. The second component of the
  result tells whether \<open>stop()\<close> was called on the other control path during the driver
  call.
\<close>

definition writeSamples :: "I2SSpeaker \<Rightarrow> int16 list \<Rightarrow> size_t \<Rightarrow> int \<times> bool \<times> I2SSpeaker" where
  "writeSamples spk buffer sampleCount =
     (if sampleCount = 0 then (ESP_ERR_INVALID_ARG, False, spk)
      else if \<not> spkInitialized spk then (ESP_ERR_INVALID_STATE, False, spk)
      else if \<not> active spk then (ESP_ERR_INVALID_STATE, False, spk)
      else if sampleCount * 2 = 0 then (ESP_ERR_INVALID_ARG, False, spk)
      else case pending spk of
             [] \<Rightarrow> (ESP_OK, False, spk\<lparr>written := written spk @ [buffer]\<rparr>)
           | (ret, stopCalled) # rest \<Rightarrow>
               (ret, stopCalled, spk\<lparr>pending := rest, written := written spk @ [buffer]\<rparr>))"

definition clear :: "I2SSpeaker \<Rightarrow> I2SSpeaker" where
  "clear spk =
     (if \<not> spkInitialized spk \<or> \<not> active spk then spk
      else spk\<lparr>silences := silences spk + 1\<rparr>)"

section \<open>MP3Player\<close>

text \<open>
  The static members of \<open>MP3Player\<close>, without \<open>_decoder\<close>, which is carried next to this
  record. \<open>speaker\<close> is \<open>None\<close> for a null pointer; \<open>progressCallback\<close> tells whether an
  observer is installed. \<open>reported\<close> has one entry for each call of the observer: the
  values of \<open>_processedFrames\<close> and \<open>_totalFrames\<close> whose quotient, computed in \<open>float\<close>,
  the observer is given.
\<close>

record MP3Player =
  speaker :: "I2SSpeaker option"
  playerInitialized :: bool
  playing :: bool
  volume :: real
  progressCallback :: bool
  totalFrames :: size_t
  processedFrames :: size_t
  reported :: "(size_t \<times> size_t) list"

definition constrain :: "real \<Rightarrow> real \<Rightarrow> real \<Rightarrow> real" where
  "constrain amt low high = (if amt < low then low else if amt > high then high else amt)"

definition stop :: "'h MP3Decoder \<times> MP3Player \<Rightarrow> 'h MP3Decoder \<times> MP3Player" where
  "stop w =
     (case w of (dec, pl) \<Rightarrow>
        if playing pl
        then (if streaming dec then stopStreaming dec else dec, pl\<lparr>playing := False\<rparr>)
        else (dec, pl))"

text \<open>The block under \<open>// Update progress\<close>.\<close>

definition updateProgress :: "MP3Player \<Rightarrow> MP3Player" where
  "updateProgress pl =
     (let pl' = pl\<lparr>processedFrames := processedFrames pl + 1\<rparr>
      in if progressCallback pl' \<and> totalFrames pl' > 0
         then pl'\<lparr>reported := reported pl' @ [(processedFrames pl', totalFrames pl')]\<rparr>
         else pl')"

definition streamingCallback ::
  "'h platform \<Rightarrow> int16 list \<Rightarrow> size_t \<Rightarrow> MP3Info \<Rightarrow> 'h MP3Decoder \<times> MP3Player
     \<Rightarrow> bool \<times> 'h MP3Decoder \<times> MP3Player" where
  "streamingCallback pf data sampleCount info w =
     (case w of (dec, pl) \<Rightarrow>
        case speaker pl of
          None \<Rightarrow> (False, dec, pl)
        | Some spk \<Rightarrow>
            if \<not> playing pl \<or> sampleCount = 0 then (False, dec, pl)
            else if \<not> heap_ok pf (unat (sampleCount * 2)) then (False, dec, pl)
            else
              let volumeAdjustedSamples = applyVolume (take (unat sampleCount) data) (volume pl)
              in case writeSamples spk volumeAdjustedSamples sampleCount of
                   (result, stopCalled, spk') \<Rightarrow>
                     (case (if stopCalled then stop (dec, pl\<lparr>speaker := Some spk'\<rparr>)
                            else (dec, pl\<lparr>speaker := Some spk'\<rparr>)) of
                        (dec1, pl1) \<Rightarrow>
                          if result \<noteq> ESP_OK then (False, dec1, pl1)
                          else (playing (updateProgress pl1), dec1, updateProgress pl1)))"

text \<open>
  The loop of \<open>playFileWithProgress\<close>, with a bound on its iterations and a bound on the
  passes of each \<open>processStreamFrame\<close> call; \<open>None\<close> means that a bound was reached.
\<close>

fun playLoop ::
  "nat \<Rightarrow> nat \<Rightarrow> 'h platform \<Rightarrow> 'h MP3Decoder \<times> MP3Player
     \<Rightarrow> ('h MP3Decoder \<times> MP3Player) option" where
  "playLoop 0 m pf w = None"
| "playLoop (Suc n) m pf w =
     (if streaming (fst w) \<and> playing (snd w)
      then case processStreamFrame m pf (Some (streamingCallback pf)) w of
             None \<Rightarrow> None
           | Some (ok, w') \<Rightarrow> if \<not> ok then Some w' else playLoop n m pf w'
      else Some w)"

definition playFileWithProgress ::
  "nat \<Rightarrow> nat \<Rightarrow> 'h platform \<Rightarrow> string \<Rightarrow> real \<Rightarrow> bool \<Rightarrow> 'h MP3Decoder \<times> MP3Player
     \<Rightarrow> (bool \<times> 'h MP3Decoder \<times> MP3Player) option" where
  "playFileWithProgress n m pf filePath vol observer w =
     (case w of (dec, pl) \<Rightarrow>
        case speaker pl of
          None \<Rightarrow> Some (False, dec, pl)
        | Some spk \<Rightarrow>
            if \<not> playerInitialized pl \<or> playing pl then Some (False, dec, pl)
            else
              let pl1 = pl\<lparr>volume := constrain vol 0 1, progressCallback := observer,
                          totalFrames := 0, processedFrames := 0\<rparr>;
                  (err, spk1) = (if \<not> active spk then start spk else (ESP_OK, spk));
                  pl2 = pl1\<lparr>speaker := Some spk1\<rparr>
              in if err \<noteq> ESP_OK then Some (False, dec, pl2)
                 else
                   case startStreaming pf filePath dec of
                     (success, dec1) \<Rightarrow>
                       if \<not> success then Some (False, dec1, pl2\<lparr>playing := False\<rparr>)
                       else
                         case playLoop n m pf (dec1, pl2\<lparr>playing := True\<rparr>) of
                           None \<Rightarrow> None
                         | Some (dec2, pl3) \<Rightarrow>
                             Some (success,
                                   if streaming dec2 then stopStreaming dec2 else dec2,
                                   pl3\<lparr>playing := False, progressCallback := False,
                                       speaker := map_option clear (speaker pl3)\<rparr>))"

section \<open>Invariants of a playback session\<close>

fun outcomeWorld :: "'w outcome \<Rightarrow> 'w" where
  "outcomeWorld (Return b w) = w"
| "outcomeWorld (Again w) = w"

text \<open>
  A property \<open>J\<close> of the streaming flag and the callback's state that the callback
  maintains: when it is called on a streaming decoder with \<open>J\<close>, then \<open>J\<close> holds for its
  state and the streaming flag that \<open>processStreamFrame\<close> leaves (cleared when the
  callback returns \<open>false\<close>).
\<close>

definition callbackKeeps ::
  "(bool \<Rightarrow> 'p \<Rightarrow> bool) \<Rightarrow> ('h, 'p) StreamCallback \<Rightarrow> bool" where
  "callbackKeeps J f \<longleftrightarrow>
     (\<forall>d n i s p c s' p'. f d n i (s, p) = (c, s', p') \<longrightarrow> streaming s \<longrightarrow> J True p
        \<longrightarrow> J (c \<and> streaming s') p')"

text \<open>The total frame count is 0 and the calls of the observer so far are \<open>r0\<close>.\<close>

definition sessionQuiet :: "(size_t \<times> size_t) list \<Rightarrow> bool \<Rightarrow> MP3Player \<Rightarrow> bool" where
  "sessionQuiet r0 st pl \<longleftrightarrow> totalFrames pl = 0 \<and> reported pl = r0"

text \<open>The callback gets as far as the sink write.\<close>

definition forwards :: "'h platform \<Rightarrow> size_t \<Rightarrow> MP3Player \<Rightarrow> bool" where
  "forwards pf n pl \<longleftrightarrow>
     (\<exists>spk. speaker pl = Some spk) \<and> playing pl \<and> n \<noteq> 0 \<and> heap_ok pf (unat (n * 2))"

text \<open>
  A driver call is clean when it returns \<open>ESP_OK\<close> and \<open>stop()\<close> is not called during it.
  \<open>headroom sc\<close> is the number of clean calls before the first one that is not.
\<close>

definition clean :: "int \<times> bool \<Rightarrow> bool" where
  "clean e \<longleftrightarrow> fst e = ESP_OK \<and> \<not> snd e"

definition headroom :: "(int \<times> bool) list \<Rightarrow> nat" where
  "headroom sc = length (takeWhile clean sc)"

text \<open>
  Of the driver calls \<open>sc0\<close>, \<open>k\<close> have been made, each for one block; either all of them
  were clean, or the last one was the first that was not and the session is no longer
  both streaming and playing.
\<close>

definition accounted :: "(int \<times> bool) list \<Rightarrow> nat \<Rightarrow> bool \<Rightarrow> MP3Player \<Rightarrow> bool" where
  "accounted sc0 n0 st pl \<longleftrightarrow>
     (\<exists>spk k. speaker pl = Some spk \<and> pending spk = drop k sc0 \<and>
        length (written spk) = n0 + k \<and>
        (k \<le> headroom sc0 \<or> (k = headroom sc0 + 1 \<and> \<not> (st \<and> playing pl))))"

section \<open>Players and files for concrete runs\<close>

text \<open>
  An initialised, started speaker whose driver will behave as \<open>script\<close>, and a player
  that holds it.
\<close>

definition demoSpeaker :: "(int \<times> bool) list \<Rightarrow> int16 list list \<Rightarrow> nat \<Rightarrow> I2SSpeaker" where
  "demoSpeaker script blocks n =
     \<lparr>spkInitialized = True, active = True, enableStatus = 0,
      pending = script, written = blocks, silences = n\<rparr>"

definition demoPlayer :: "(int \<times> bool) list \<Rightarrow> MP3Player" where
  "demoPlayer script =
     \<lparr>speaker = Some (demoSpeaker script [] 0),
      playerInitialized = True, playing = False, volume = 7 / 10, progressCallback = False,
      totalFrames = 0, processedFrames = 0, reported = []\<rparr>"

text \<open>
  A file that is one frame that decodes to the samples 100 and 50; the decoder that
  \<open>startStreaming\<close> leaves for it, and the decoder after the frame has been decoded and
  streaming has stopped.
\<close>

definition goodFrameFile :: "byte list" where
  "goodFrameFile = [255, 251, 100, 50]"

definition goodFrameStarted :: "unit MP3Decoder" where
  "goodFrameStarted = (demoDecoder goodFrameFile [])\<lparr>streamInfo := demoInfo\<lparr>channels := 50\<rparr>\<rparr>"

definition goodFrameStopped :: "unit MP3Decoder" where
  "goodFrameStopped =
     idleDecoder\<lparr>firstFrame := False, streamInfo := demoInfo\<lparr>channels := 50\<rparr>,
                 outputBuffer := [100, 50]\<rparr>"

text \<open>A file of two frames that decode, to the samples 100, 50 and 60, 30.\<close>

definition twoGoodFile :: "byte list" where
  "twoGoodFile = [255, 251, 100, 50, 255, 251, 60, 30]"

definition twoGoodStarted :: "unit MP3Decoder" where
  "twoGoodStarted = (demoDecoder twoGoodFile [])\<lparr>streamInfo := demoInfo\<lparr>channels := 50\<rparr>\<rparr>"

section \<open>A codec that stays inside the window\<close>

text \<open>
  The sync search returns an offset inside the window it was given; \<open>MP3Decode\<close> moves the
  read position by no more than the window holds, and leaves at least one byte when it
  fails with an error other than underflow.
\<close>

definition codecInWindow :: "'h platform \<Rightarrow> bool" where
  "codecInWindow pf \<longleftrightarrow>
     (\<forall>w. MP3FindSyncWord pf w < int (length w)) \<and>
     (\<forall>h w r k pcm h'. MP3Decode pf h w = (r, k, pcm, h') \<longrightarrow>
        k \<le> length w \<and> (r \<noteq> 0 \<and> r \<noteq> ERR_MP3_INDATA_UNDERFLOW pf \<longrightarrow> k < length w))"

definition callbackKeepsBuffer :: "('h, 'p) StreamCallback option \<Rightarrow> bool" where
  "callbackKeepsBuffer cb \<longleftrightarrow>
     (\<forall>f d n i s p c s' p'. cb = Some f \<longrightarrow> f d n i (s, p) = (c, s', p') \<longrightarrow> bufferOK s
        \<longrightarrow> bufferOK s')"

section \<open>Properties of applyVolume\<close>

lemma applyVolume_length: "length (applyVolume samples v) = length samples"
  by (simp add: applyVolume_def)

lemma applyVolume_full_volume: "applyVolume samples 1 = samples"
  by (simp add: applyVolume_def)

text \<open>
  For a volume strictly between 0 and 1 the product, truncated, lies in the 16-bit signed
  range, so the cast to \<open>int16_t\<close> keeps it.
\<close>

lemma sint_int16_of_int:
  assumes "- 32768 \<le> t" "t \<le> 32767"
  shows "sint (word_of_int t :: int16) = t"
proof -
  have "sint (word_of_int t :: int16) = signed_take_bit 15 t"
    by (simp add: sint_sbintrunc')
  also have "\<dots> = t" using assms by (intro signed_take_bit_int_eq_self) simp_all
  finally show ?thesis .
qed

lemma scaled_in_range:
  fixes x :: int
  assumes "0 < v" "v < 1" "- 32768 \<le> x" "x \<le> 32767"
  shows "- 32768 \<le> towardsZero (real_of_int x * v)"
    and "towardsZero (real_of_int x * v) \<le> 32767"
proof -
  let ?y = "real_of_int x * v"
  show "- 32768 \<le> towardsZero ?y"
  proof (cases "0 \<le> ?y")
    case True
    then have "0 \<le> \<lfloor>?y\<rfloor>" by simp
    moreover have "towardsZero ?y = \<lfloor>?y\<rfloor>" using True by (simp only: towardsZero_def if_True)
    ultimately show ?thesis by linarith
  next
    case False
    then have neg: "x < 0" using assms(1) by (simp add: mult_less_0_iff not_le)
    then have "real_of_int x \<le> ?y"
      using assms by (simp add: mult_le_cancel_left2)
    then have "x \<le> \<lceil>?y\<rceil>" by (simp add: le_ceiling_iff)
    moreover have "towardsZero ?y = \<lceil>?y\<rceil>" using False by (simp only: towardsZero_def if_False)
    ultimately show ?thesis using assms(3) by linarith
  qed
  show "towardsZero ?y \<le> 32767"
  proof (cases "0 \<le> ?y")
    case True
    then have pos: "0 \<le> x" using assms(1) by (simp add: zero_le_mult_iff)
    then have "?y \<le> real_of_int x"
      using assms(2) by (simp add: mult_left_le)
    then have "\<lfloor>?y\<rfloor> \<le> x" by (simp add: floor_le_iff)
    moreover have "towardsZero ?y = \<lfloor>?y\<rfloor>" using True by (simp only: towardsZero_def if_True)
    ultimately show ?thesis using assms(4) by linarith
  next
    case False
    then have "?y < 0" by simp
    then have "\<lceil>?y\<rceil> \<le> 0" by (simp add: ceiling_le_iff)
    moreover have "towardsZero ?y = \<lceil>?y\<rceil>" using False by (simp only: towardsZero_def if_False)
    ultimately show ?thesis by linarith
  qed
qed

lemma applyVolume_in_range:
  fixes samples :: "int16 list"
  assumes "0 < v" "v < 1" "i < length samples" "x = sint (samples ! i)"
  shows "sint (applyVolume samples v ! i) = towardsZero (real_of_int x * v)"
    and "- 32768 \<le> towardsZero (real_of_int x * v)"
    and "towardsZero (real_of_int x * v) \<le> 32767"
proof -
  have lo: "- 32768 \<le> x" using sint_ge [of "samples ! i"] assms(4) by simp
  have hi: "x \<le> 32767" using sint_lt [of "samples ! i"] assms(4) by simp
  show r: "- 32768 \<le> towardsZero (real_of_int x * v)" "towardsZero (real_of_int x * v) \<le> 32767"
    using scaled_in_range [OF assms(1,2) lo hi] by blast+
  have "sint (word_of_int (towardsZero (real_of_int x * v)) :: int16) = towardsZero (real_of_int x * v)"
    using r by (rule sint_int16_of_int)
  moreover have "applyVolume samples v ! i = truncate_to_int16 (real_of_int x * v)"
    using assms by (auto simp: applyVolume_def)
  ultimately show "sint (applyVolume samples v ! i) = towardsZero (real_of_int x * v)"
    by (simp only: truncate_to_int16_def towardsZero_def)
qed

text \<open>
  Claim C4 (volume 1.0 leaves the block bit-identical, volume 0.0 gives an all-zero block,
  volumes in between stay in the 16-bit range). The guard \<open>volume <= 0.0f\<close> returns before
  the scaling loop, so at volume 0.0 the block is left as it was: a block of two non-zero
  samples comes back unchanged, not zeroed.
\<close>

theorem applyVolume_zero_volume_keeps_samples:
  "applyVolume [1000, - 1000] 0 = [1000, - 1000] \<and>
   applyVolume [1000, - 1000] 0 \<noteq> [0, 0]"
  by (simp add: applyVolume_def)

section \<open>Arithmetic on \<open>size_t\<close> within the buffer\<close>

lemma unat_spaceLeft:
  assumes "unat (b :: size_t) \<le> STREAM_BUFFER_SIZE"
  shows "unat (of_nat STREAM_BUFFER_SIZE - b :: size_t) = STREAM_BUFFER_SIZE - unat b"
proof -
  have "b \<le> (of_nat STREAM_BUFFER_SIZE :: size_t)"
    using assms by (simp add: word_le_nat_alt STREAM_BUFFER_SIZE_def)
  then have "unat (of_nat STREAM_BUFFER_SIZE - b)
               = unat (of_nat STREAM_BUFFER_SIZE :: size_t) - unat b"
    by (rule unat_sub)
  then show ?thesis by (simp add: STREAM_BUFFER_SIZE_def)
qed

lemma unat_add_small:
  assumes "unat (b :: size_t) + n \<le> STREAM_BUFFER_SIZE"
  shows "unat (b + of_nat n) = unat b + n"
proof -
  have "unat b + n < 2 ^ 32" using assms by (simp add: STREAM_BUFFER_SIZE_def)
  then show ?thesis
    by (simp add: unat_word_ariths unat_of_nat)
qed

lemma unat_sub_small:
  assumes "n \<le> unat (b :: size_t)"
  shows "unat (b - of_nat n) = unat b - n"
  using assms
  by (metis le_unat_uoi unat_sub word_le_nat_alt)

lemma unat_max_size_t: "unat (- 1 :: size_t) = 4294967295"
  by (simp add: unsigned_minus_1_eq_mask mask_eq_exp_minus_1)

section \<open>Refill\<close>

lemma store_length: "off + length bs \<le> length buf \<Longrightarrow> length (store buf off bs) = length buf"
  by (simp add: store_def)

lemma take_store:
  "off \<le> length buf \<Longrightarrow> take (off + length bs) (store buf off bs) = take off buf @ bs"
  by (simp add: store_def)

lemma window_length:
  "readPtr s + unat (bytesLeft s) \<le> length (streamBuffer s)
     \<Longrightarrow> length (window s) = unat (bytesLeft s)"
  by (simp add: window_def)

lemma compact_prefix:
  assumes "readPtr s + unat (bytesLeft s) \<le> length (streamBuffer s)"
  shows "take (unat (bytesLeft s))
           (if bytesLeft s > 0 \<and> readPtr s \<noteq> 0
            then store (streamBuffer s) 0 (window s) else streamBuffer s) = window s"
proof (cases "bytesLeft s > 0 \<and> readPtr s \<noteq> 0")
  case True
  then show ?thesis using assms by (simp add: store_def window_def)
next
  case False
  then have "bytesLeft s = 0 \<or> readPtr s = 0" by (auto simp: word_greater_zero_iff)
  then show ?thesis using False by (auto simp: window_def)
qed

lemma compact_length:
  assumes "readPtr s + unat (bytesLeft s) \<le> length (streamBuffer s)"
  shows "length (if bytesLeft s > 0 \<and> readPtr s \<noteq> 0
                 then store (streamBuffer s) 0 (window s) else streamBuffer s)
           = length (streamBuffer s)"
  using assms by (simp add: store_length window_def)

lemma fillStreamBuffer_drained: "available s = 0 \<Longrightarrow> fillStreamBuffer s = (False, s)"
  by (auto simp: fillStreamBuffer_def available_def split: option.splits)

lemma fillStreamBuffer_open:
  assumes "streamFile s = Some f" "f \<noteq> []"
  shows "fillStreamBuffer s =
           (let chunk = take (unat (of_nat STREAM_BUFFER_SIZE - bytesLeft s :: size_t)) f
            in (chunk \<noteq> [], afterFill s f chunk))"
  using assms by (auto simp: fillStreamBuffer_def afterFill_def Let_def)

lemma fillStreamBuffer_space:
  assumes "available s \<noteq> 0" "unat (bytesLeft s) < STREAM_BUFFER_SIZE"
  shows "fst (fillStreamBuffer s)"
proof -
  from assms(1) obtain f where f: "streamFile s = Some f" "f \<noteq> []"
    by (auto simp: available_def split: option.splits)
  have "unat (of_nat STREAM_BUFFER_SIZE - bytesLeft s :: size_t) \<noteq> 0"
    using assms(2) by (simp add: unat_spaceLeft)
  with f show ?thesis by (simp add: fillStreamBuffer_open Let_def)
qed

text \<open>
  Claim C3, as the code has it: when the source reports no more data, \<open>fillStreamBuffer\<close>
  leaves the decoder as it was and returns \<open>false\<close>, the value its callers take as the end
  of the stream, whether or not unread bytes remain; when the source has data and the
  buffer holds fewer than \<open>STREAM_BUFFER_SIZE\<close> unread bytes it returns \<open>true\<close>.
\<close>

theorem fillStreamBuffer_exhaustion:
  "(available s = 0 \<longrightarrow> fillStreamBuffer s = (False, s)) \<and>
   (available s \<noteq> 0 \<and> unat (bytesLeft s) < STREAM_BUFFER_SIZE \<longrightarrow> fst (fillStreamBuffer s))"
  using fillStreamBuffer_drained fillStreamBuffer_space by blast

theorem fillStreamBuffer_exhaustion_witness:
  "available (demoDecoder [7, 7, 7] []) = 0 \<and>
   fillStreamBuffer (demoDecoder [7, 7, 7] []) = (False, demoDecoder [7, 7, 7] []) \<and>
   available (demoDecoder [7, 7, 7] [8]) \<noteq> 0 \<and>
   unat (bytesLeft (demoDecoder [7, 7, 7] [8])) < STREAM_BUFFER_SIZE \<and>
   fst (fillStreamBuffer (demoDecoder [7, 7, 7] [8]))"
  using fillStreamBuffer_exhaustion [of "demoDecoder [7, 7, 7] []"]
        fillStreamBuffer_exhaustion [of "demoDecoder [7, 7, 7] [8]"]
  by (simp add: available_def demoDecoder_def STREAM_BUFFER_SIZE_def)

text \<open>
  Claim C3 as stated fails: with the source drained and three unread bytes in the buffer,
  \<open>fillStreamBuffer\<close> returns \<open>false\<close>, and \<open>processStreamFrame\<close>, finding no sync word in
  those bytes, ends the stream on it.
\<close>

theorem fillStreamBuffer_drained_with_unread_counterexample:
  "available (demoDecoder [7, 7, 7] []) = 0 \<and>
   unat (bytesLeft (demoDecoder [7, 7, 7] [])) = 3 \<and>
   fst (fillStreamBuffer (demoDecoder [7, 7, 7] [])) = False \<and>
   processStreamFrame 1 (demoPlatform []) None (demoDecoder [7, 7, 7] [], ())
     = Some (False, demoDecoder [7, 7, 7] [], ())"
  by (simp add: available_def demoDecoder_def demoPlatform_def fillStreamBuffer_def
      attempt_def refillAndRetry_def window_def STREAM_BUFFER_SIZE_def)

section \<open>One-byte skip after a decoding error\<close>

lemmas demo_defs = demoPlatform_def demoDecoder_def demoFrameInfo_def noInfo_def demoInfo_def
  idleDecoder_def badFrameFile_def badFrameStarted_def twoFrameFile_def twoFrameStarted_def
  STREAM_BUFFER_SIZE_def
  INPUT_BUFFER_SIZE_def

lemmas body_defs = attempt_def decodeFrame_def deliver_def moveToSync_def skipAndRetry_def skipByte_def latchStreamInfo_def
  refillAndRetry_def fillStreamBuffer_def store_def window_def topUp_def available_def
  stopStreaming_def Let_def

lemma badFrame_start:
  "startStreaming (demoPlatform badFrameFile) ''/a.mp3'' idleDecoder = (True, badFrameStarted)"
  by (simp add: startStreaming_def getFileInfo_def body_defs demo_defs)

lemma badFrame_first_pass:
  "attempt (demoPlatform badFrameFile) None (badFrameStarted, ())
     = Again (badFrameStarted\<lparr>firstFrame := False, readPtr := 5, bytesLeft := - 1\<rparr>, ())"
  by (simp add: body_defs demo_defs)

lemma badFrame_second_pass:
  "attempt (demoPlatform badFrameFile) None
     (badFrameStarted\<lparr>firstFrame := False, readPtr := 5, bytesLeft := - 1\<rparr>, ())
     = Return False (badFrameStarted\<lparr>firstFrame := False, readPtr := 5, bytesLeft := - 1\<rparr>, ())"
  by (simp add: body_defs demo_defs)

text \<open>
  Claim C10 (before the one-byte skip \<open>_readPtr++; _bytesLeft--\<close> the count \<open>_bytesLeft\<close> is
  strictly positive). The file \<open>/a.mp3\<close> is a single frame. \<open>startStreaming\<close> succeeds and
  buffers its four bytes. In \<open>processStreamFrame\<close> the sync search and the frame information
  succeed, and \<open>MP3Decode\<close> fails with an error other than underflow after it has moved
  \<open>_readPtr\<close> past the frame, so that \<open>_bytesLeft\<close> is 0 when the skip runs: the decrement
  wraps to \<open>2^32 - 1\<close> and the read position is one past the buffered bytes.
\<close>

theorem skip_runs_with_zero_bytesLeft:
  "startStreaming (demoPlatform badFrameFile) ''/a.mp3'' idleDecoder = (True, badFrameStarted) \<and>
   MP3Decode (demoPlatform badFrameFile) () (window badFrameStarted) = (- 2, 4, [], ()) \<and>
   attempt (demoPlatform badFrameFile) None (badFrameStarted, ())
     = skipAndRetry (badFrameStarted\<lparr>firstFrame := False, readPtr := 4, bytesLeft := 0\<rparr>) () \<and>
   unat (bytesLeft (skipByte (badFrameStarted\<lparr>firstFrame := False, readPtr := 4,
                                               bytesLeft := 0\<rparr>))) = 2 ^ 32 - 1 \<and>
   readPtr (skipByte (badFrameStarted\<lparr>firstFrame := False, readPtr := 4, bytesLeft := 0\<rparr>)) = 5"
  by (simp add: startStreaming_def getFileInfo_def body_defs demo_defs unat_max_size_t)

theorem skip_runs_with_zero_bytesLeft_witness:
  "initialized idleDecoder \<and> \<not> streaming idleDecoder \<and>
   streaming badFrameStarted \<and> initialized badFrameStarted \<and>
   0 \<le> MP3FindSyncWord (demoPlatform badFrameFile) (window badFrameStarted) \<and>
   fst (startStreaming (demoPlatform badFrameFile) ''/a.mp3'' idleDecoder) \<and>
   fst (MP3Decode (demoPlatform badFrameFile) () (window badFrameStarted))
     \<noteq> ERR_MP3_INDATA_UNDERFLOW (demoPlatform badFrameFile)"
  using skip_runs_with_zero_bytesLeft
  by (simp add: window_def demo_defs)

text \<open>
  Claim C5 (after a decoding error other than underflow the read position advances by one
  byte and the unread-byte count decreases by exactly 1). On the same run the count is 0
  after the failing \<open>MP3Decode\<close> call and \<open>2^32 - 1\<close> after the skip, and sync searching
  resumes from that state.
\<close>

theorem skip_raises_unread_count:
  "(case attempt (demoPlatform badFrameFile) None (badFrameStarted, ()) of
      Again (s', p') \<Rightarrow> readPtr s' = 5 \<and> unat (bytesLeft s') = 2 ^ 32 - 1
    | Return b w' \<Rightarrow> False)"
  by (simp add: badFrame_first_pass unat_max_size_t)

theorem skip_raises_unread_count_witness:
  "streaming badFrameStarted \<and> initialized badFrameStarted \<and>
   unat (bytesLeft badFrameStarted) = 4 \<and>
   (\<exists>s' p'. attempt (demoPlatform badFrameFile) None (badFrameStarted, ()) = Again (s', p') \<and>
            unat (bytesLeft s') = 2 ^ 32 - 1)"
  using skip_raises_unread_count
  by (auto simp: demo_defs split: outcome.splits)

text \<open>
  Claim C6 (read position \<open>\<le>\<close> fill level \<open>\<le>\<close> capacity after every sequence of streaming
  operations). The decoder that \<open>startStreaming\<close> leaves satisfies the invariant; the call
  of \<open>processStreamFrame\<close> on it returns \<open>false\<close> with the decoder still streaming,
  \<open>_bytesLeft = 2^32 - 1\<close>, far above the capacity.
\<close>

theorem processStreamFrame_breaks_bufferOK:
  "bufferOK badFrameStarted \<and>
   (case processStreamFrame 2 (demoPlatform badFrameFile) None (badFrameStarted, ()) of
      Some (b, s', p') \<Rightarrow>
        \<not> b \<and> streaming s' \<and> \<not> bufferOK s' \<and> STREAM_BUFFER_SIZE < unat (bytesLeft s')
    | None \<Rightarrow> False)"
  by (simp add: numeral_2_eq_2 badFrame_first_pass badFrame_second_pass)
     (simp add: bufferOK_def demo_defs unat_max_size_t)

theorem processStreamFrame_breaks_bufferOK_witness:
  "streaming badFrameStarted \<and> initialized badFrameStarted \<and>
   readPtr badFrameStarted + unat (bytesLeft badFrameStarted) = 4 \<and>
   length (streamBuffer badFrameStarted) = STREAM_BUFFER_SIZE \<and>
   (\<exists>s' p'. processStreamFrame 2 (demoPlatform badFrameFile) None (badFrameStarted, ())
              = Some (False, s', p') \<and> \<not> bufferOK s')"
  using processStreamFrame_breaks_bufferOK
  by (auto simp: demo_defs split: option.splits)

section \<open>Latching of the stream metadata\<close>

lemma fill_keeps_info [simp]:
  "streamInfo (snd (fillStreamBuffer s)) = streamInfo s"
  "firstFrame (snd (fillStreamBuffer s)) = firstFrame s"
  by (auto simp: fillStreamBuffer_def Let_def split: option.splits)

lemma refill_keeps_info [simp]:
  "streamInfo (outcomeDecoder (refillAndRetry s p)) = streamInfo s"
  "firstFrame (outcomeDecoder (refillAndRetry s p)) = firstFrame s"
  by (auto simp: refillAndRetry_def split: prod.splits bool.splits
      dest: arg_cong [where f = "\<lambda>r. streamInfo (snd r)"]
            arg_cong [where f = "\<lambda>r. firstFrame (snd r)"])

lemma skip_keeps_info [simp]:
  "streamInfo (outcomeDecoder (skipAndRetry s p)) = streamInfo s"
  "firstFrame (outcomeDecoder (skipAndRetry s p)) = firstFrame s"
  by (simp_all add: skipAndRetry_def Let_def skipByte_def)

lemma topUp_keeps_info [simp]:
  "streamInfo (topUp s) = streamInfo s"
  "firstFrame (topUp s) = firstFrame s"
  by (simp_all add: topUp_def)

lemma stop_keeps_info [simp]:
  "streamInfo (stopStreaming s) = streamInfo s"
  "firstFrame (stopStreaming s) = firstFrame s"
  by (simp_all add: stopStreaming_def)

lemma deliver_keeps_info:
  assumes "keepsStreamInfo cb"
  shows "infoKept s (outcomeDecoder (deliver cb fi s p))"
proof (cases cb)
  case None
  then show ?thesis by (simp add: deliver_def infoKept_def)
next
  case (Some f)
  obtain c s' p'
    where r: "f (outputBuffer s) (of_int (outputSamps fi)) (streamInfo s) (s, p) = (c, s', p')"
    by (metis prod_cases3)
  with assms Some have "streamInfo s' = streamInfo s \<and> firstFrame s' = firstFrame s"
    unfolding keepsStreamInfo_def by blast
  with Some r show ?thesis by (simp add: deliver_def infoKept_def)
qed

lemma decodeFrame_keeps_info:
  assumes "keepsStreamInfo cb"
  shows "infoKept s (outcomeDecoder (decodeFrame pf cb fi s p))"
proof -
  obtain r2 consumed pcm h2
    where d: "MP3Decode pf (decoder s) (window s) = (r2, consumed, pcm, h2)"
    by (metis prod_cases4)
  define s' where "s' = s\<lparr>decoder := h2, readPtr := readPtr s + consumed,
                     bytesLeft := bytesLeft s - of_nat consumed, outputBuffer := pcm\<rparr>"
  have s': "streamInfo s' = streamInfo s" "firstFrame s' = firstFrame s"
    by (simp_all add: s'_def)
  have k: "infoKept s' (outcomeDecoder (deliver cb fi s' p))"
    using assms by (rule deliver_keeps_info)
  have e: "decodeFrame pf cb fi s p =
            (if r2 \<noteq> 0 then if r2 = ERR_MP3_INDATA_UNDERFLOW pf then refillAndRetry s' p
                              else skipAndRetry s' p
             else deliver cb fi s' p)"
    using d by (simp add: decodeFrame_def s'_def Let_def)
  show ?thesis
    using k s' unfolding e by (simp add: infoKept_def)
qed

lemma attempt_info:
  assumes "keepsStreamInfo cb"
  shows "if latchesNow pf s
         then streamInfo (outcomeDecoder (attempt pf cb (s, p)))
                = latched (fst (snd (frameInfoCall pf s))) (streamInfo s) \<and>
              \<not> firstFrame (outcomeDecoder (attempt pf cb (s, p)))
         else infoKept s (outcomeDecoder (attempt pf cb (s, p)))"
proof -
  define s1 where "s1 = moveToSync (MP3FindSyncWord pf (window s)) s"
  obtain res fi h1 where g: "MP3GetNextFrameInfo pf (decoder s1) (window s1) = (res, fi, h1)"
    by (metis prod_cases3)
  define s2 where "s2 = latchStreamInfo fi (s1\<lparr>decoder := h1\<rparr>)"
  have s1: "streamInfo s1 = streamInfo s" "firstFrame s1 = firstFrame s"
    by (simp_all add: s1_def moveToSync_def)
  have s2: "streamInfo s2 = (if firstFrame s then latched fi (streamInfo s) else streamInfo s)"
      "firstFrame s2 = False"
    using s1 by (simp_all add: s2_def latchStreamInfo_def latched_def)
  have k: "infoKept s2 (outcomeDecoder (decodeFrame pf cb fi s2 p))"
    using assms by (rule decodeFrame_keeps_info)
  have e: "attempt pf cb (s, p) =
            (if \<not> streaming s \<or> \<not> initialized s then Return False (s, p)
             else if MP3FindSyncWord pf (window s) < 0 then refillAndRetry s p
             else if res \<noteq> 0 then skipAndRetry (s1\<lparr>decoder := h1\<rparr>) p
             else decodeFrame pf cb fi s2 p)"
    using g by (simp add: attempt_def Let_def s1_def [symmetric] s2_def)
  have c: "frameInfoCall pf s = (res, fi, h1)"
    using g by (simp add: frameInfoCall_def Let_def s1_def [symmetric])
  show ?thesis
    using k s1 s2 unfolding e latchesNow_def c
    by (auto simp: infoKept_def)
qed

lemma processStreamFrame_keeps_latched:
  assumes "keepsStreamInfo cb" "\<not> firstFrame s"
    and "processStreamFrame n pf cb (s, p) = Some (b, s', p')"
  shows "infoKept s s'"
  using assms(2,3)
proof (induction n arbitrary: s p)
  case 0
  then show ?case by simp
next
  case (Suc n)
  have k: "infoKept s (outcomeDecoder (attempt pf cb (s, p)))"
    using attempt_info [OF assms(1), of pf s p] Suc.prems(1) by (simp add: latchesNow_def)
  show ?case
  proof (cases "attempt pf cb (s, p)")
    case (Return b1 w1)
    with Suc.prems(2) k show ?thesis by auto
  next
    case (Again w1)
    obtain s1 p1 where w1: "w1 = (s1, p1)" by (cases w1)
    from k Again w1 have k1: "infoKept s s1" by simp
    with Suc.prems(1) have "\<not> firstFrame s1" by (simp add: infoKept_def)
    moreover from Suc.prems(2) Again w1
    have "processStreamFrame n pf cb (s1, p1) = Some (b, s', p')" by simp
    ultimately have "infoKept s1 s'" by (rule Suc.IH)
    with k1 show ?thesis by (simp add: infoKept_def)
  qed
qed

lemma getFileInfo_valid:
  "getFileInfo pf path info s = (True, info', s') \<Longrightarrow> valid info'"
  by (auto simp: getFileInfo_def Let_def split: if_splits option.splits prod.splits)

lemma startStreaming_prefills:
  assumes "startStreaming pf path s0 = (True, s1)"
  shows "firstFrame s1 \<and> valid (streamInfo s1) \<and>
         (\<exists>content s3. spiffs pf path = Some content \<and>
            getFileInfo pf path (streamInfo s0)
              (s0\<lparr>streamFile := Some content,
                   streamBuffer := replicate STREAM_BUFFER_SIZE 0\<rparr>) = (True, streamInfo s1, s3))"
proof -
  from assms obtain content where c: "spiffs pf path = Some content"
    by (auto simp: startStreaming_def split: if_splits option.splits)
  define s2 where "s2 = s0\<lparr>streamFile := Some content,
                            streamBuffer := replicate STREAM_BUFFER_SIZE 0\<rparr>"
  obtain ok info s3 where g: "getFileInfo pf path (streamInfo s0) s2 = (ok, info, s3)"
    by (metis prod_cases3)
  define s4 where "s4 = s3\<lparr>streamInfo := info, bytesLeft := 0, readPtr := 0,
                            firstFrame := True, streaming := True\<rparr>"
  have i2: "streamInfo s2 = streamInfo s0" by (simp add: s2_def)
  from assms c g have ok: ok
    by (auto simp: startStreaming_def Let_def s2_def split: if_splits)
  from assms c g ok have "fillStreamBuffer s4 = (True, s1)"
    by (auto simp: startStreaming_def Let_def s2_def s4_def split: if_splits prod.splits bool.splits)
  then have "s1 = snd (fillStreamBuffer s4)" by simp
  then have k: "streamInfo s1 = info" "firstFrame s1" by (simp_all add: s4_def)
  from g ok have "valid info" by (auto dest: getFileInfo_valid)
  with k c g ok show ?thesis unfolding s2_def by auto
qed

text \<open>
  Claim C7, as the code has it. When \<open>startStreaming\<close> succeeds, the metadata of the
  stream is what \<open>getFileInfo\<close> returned for the file, marked valid, and the first-frame
  flag is set. \<open>processStreamFrame\<close> latches the sample rate, the channel count, the bit
  rate and the validity flag in the pass in which the first-frame flag is set and the
  frame-information call succeeds, before \<open>MP3Decode\<close> is called and whatever it returns,
  and clears the flag; any other pass leaves metadata and flag as they were; and once
  the flag is clear a whole call of \<open>processStreamFrame\<close>, however many frames it skips
  or decodes, leaves them as they were, as does \<open>stopStreaming\<close>. The callback is taken
  not to write them.
\<close>

theorem streamInfo_latched_at_first_frame_info:
  "(startStreaming pf path s0 = (True, s1)
      \<longrightarrow> firstFrame s1 \<and> valid (streamInfo s1) \<and>
          (\<exists>content s3. spiffs pf path = Some content \<and>
             getFileInfo pf path (streamInfo s0)
               (s0\<lparr>streamFile := Some content,
                    streamBuffer := replicate STREAM_BUFFER_SIZE 0\<rparr>)
               = (True, streamInfo s1, s3))) \<and>
   (keepsStreamInfo cb \<longrightarrow>
     (if latchesNow pf s
      then streamInfo (outcomeDecoder (attempt pf cb (s, p)))
             = latched (fst (snd (frameInfoCall pf s))) (streamInfo s) \<and>
           \<not> firstFrame (outcomeDecoder (attempt pf cb (s, p)))
      else infoKept s (outcomeDecoder (attempt pf cb (s, p)))) \<and>
     (\<not> firstFrame t \<and> processStreamFrame n pf cb (t, q) = Some (b, t', q')
        \<longrightarrow> streamInfo t' = streamInfo t \<and> \<not> firstFrame t')) \<and>
   infoKept u (stopStreaming u)"
proof (intro conjI impI)
  assume "startStreaming pf path s0 = (True, s1)"
  then have a: "firstFrame s1 \<and> valid (streamInfo s1) \<and>
         (\<exists>content s3. spiffs pf path = Some content \<and>
            getFileInfo pf path (streamInfo s0)
              (s0\<lparr>streamFile := Some content,
                   streamBuffer := replicate STREAM_BUFFER_SIZE 0\<rparr>) = (True, streamInfo s1, s3))"
    by (rule startStreaming_prefills)
  from a show "firstFrame s1" by simp
  from a show "valid (streamInfo s1)" by simp
  from a show "\<exists>content s3. spiffs pf path = Some content \<and>
            getFileInfo pf path (streamInfo s0)
              (s0\<lparr>streamFile := Some content,
                   streamBuffer := replicate STREAM_BUFFER_SIZE 0\<rparr>) = (True, streamInfo s1, s3)"
    by simp
next
  assume "keepsStreamInfo cb"
  then show "if latchesNow pf s
      then streamInfo (outcomeDecoder (attempt pf cb (s, p)))
             = latched (fst (snd (frameInfoCall pf s))) (streamInfo s) \<and>
           \<not> firstFrame (outcomeDecoder (attempt pf cb (s, p)))
      else infoKept s (outcomeDecoder (attempt pf cb (s, p)))"
    by (rule attempt_info)
next
  assume k: "keepsStreamInfo cb"
    and r: "\<not> firstFrame t \<and> processStreamFrame n pf cb (t, q) = Some (b, t', q')"
  from r have "infoKept t t'"
    using processStreamFrame_keeps_latched [OF k, of t n pf q b t' q'] by blast
  with r show "streamInfo t' = streamInfo t" "\<not> firstFrame t'" by (simp_all add: infoKept_def)
next
  show "infoKept u (stopStreaming u)" by (simp add: infoKept_def)
qed

lemma twoFrame_start:
  "startStreaming (demoPlatform twoFrameFile) ''/a.mp3'' idleDecoder = (True, twoFrameStarted)"
  by (simp add: startStreaming_def getFileInfo_def body_defs demo_defs)

lemma twoFrame_first_pass:
  "attempt (demoPlatform twoFrameFile) None (twoFrameStarted, ())
     = Again (twoFrameStarted\<lparr>firstFrame := False, readPtr := 5, bytesLeft := 4\<rparr>, ())"
  by (simp add: body_defs demo_defs)

lemma twoFrame_second_pass:
  "attempt (demoPlatform twoFrameFile) None
     (twoFrameStarted\<lparr>firstFrame := False, readPtr := 5, bytesLeft := 4\<rparr>, ())
     = Return True (twoFrameStarted\<lparr>firstFrame := False, readPtr := 9, bytesLeft := 0,
                                     outputBuffer := [9, 1]\<rparr>, ())"
  by (simp add: body_defs demo_defs)

theorem streamInfo_latched_at_first_frame_info_witness:
  "startStreaming (demoPlatform twoFrameFile) ''/a.mp3'' idleDecoder = (True, twoFrameStarted) \<and>
   firstFrame twoFrameStarted \<and> streamInfo twoFrameStarted = demoInfo \<and> valid demoInfo \<and>
   getFileInfo (demoPlatform twoFrameFile) ''/a.mp3'' (streamInfo idleDecoder)
     (idleDecoder\<lparr>streamFile := Some twoFrameFile,
                   streamBuffer := replicate STREAM_BUFFER_SIZE 0\<rparr>)
     = (True, demoInfo, idleDecoder\<lparr>streamFile := Some twoFrameFile,
                                      streamBuffer := replicate STREAM_BUFFER_SIZE 0\<rparr>) \<and>
   keepsStreamInfo (None :: (unit, unit) StreamCallback option) \<and>
   latchesNow (demoPlatform twoFrameFile) twoFrameStarted \<and>
   streamInfo (outcomeDecoder (attempt (demoPlatform twoFrameFile) None (twoFrameStarted, ())))
     = demoInfo \<and>
   \<not> firstFrame (twoFrameStarted\<lparr>firstFrame := False, readPtr := 5, bytesLeft := 4\<rparr>) \<and>
   processStreamFrame 1 (demoPlatform twoFrameFile) None
     (twoFrameStarted\<lparr>firstFrame := False, readPtr := 5, bytesLeft := 4\<rparr>, ())
     = Some (True, twoFrameStarted\<lparr>firstFrame := False, readPtr := 9, bytesLeft := 0,
                                   outputBuffer := [9, 1]\<rparr>, ()) \<and>
   streamInfo (twoFrameStarted\<lparr>firstFrame := False, readPtr := 9, bytesLeft := 0,
                               outputBuffer := [9, 1]\<rparr>) = demoInfo"
proof -
  let ?pf = "demoPlatform twoFrameFile"
  let ?t = "twoFrameStarted\<lparr>firstFrame := False, readPtr := 5, bytesLeft := 4\<rparr>"
  let ?t' = "twoFrameStarted\<lparr>firstFrame := False, readPtr := 9, bytesLeft := 0,
                             outputBuffer := [9, 1]\<rparr>"
  let ?s2 = "idleDecoder\<lparr>streamFile := Some twoFrameFile,
                          streamBuffer := replicate STREAM_BUFFER_SIZE 0\<rparr>"
  have "firstFrame twoFrameStarted \<and> valid (streamInfo twoFrameStarted) \<and>
        (\<exists>content s3. spiffs ?pf ''/a.mp3'' = Some content \<and>
           getFileInfo ?pf ''/a.mp3'' (streamInfo idleDecoder)
             (idleDecoder\<lparr>streamFile := Some content,
                           streamBuffer := replicate STREAM_BUFFER_SIZE 0\<rparr>)
             = (True, streamInfo twoFrameStarted, s3))"
    by (rule streamInfo_latched_at_first_frame_info [THEN conjunct1, THEN mp]) (rule twoFrame_start)
  moreover have i: "streamInfo twoFrameStarted = demoInfo" by (simp add: demo_defs)
  moreover have "spiffs ?pf ''/a.mp3'' = Some twoFrameFile" by (simp add: demoPlatform_def)
  moreover have g: "getFileInfo ?pf ''/a.mp3'' (streamInfo idleDecoder) ?s2 = (True, demoInfo, ?s2)"
    by (simp add: getFileInfo_def body_defs demo_defs)
  ultimately have a: "firstFrame twoFrameStarted \<and> valid demoInfo" by simp
  have k: "keepsStreamInfo (None :: (unit, unit) StreamCallback option)"
    by (simp add: keepsStreamInfo_def)
  have l: "latchesNow ?pf twoFrameStarted"
    by (simp add: latchesNow_def frameInfoCall_def moveToSync_def window_def demo_defs)
  have r: "processStreamFrame 1 ?pf None (?t, ()) = Some (True, ?t', ())"
    by (simp add: twoFrame_second_pass)
  have "(if latchesNow ?pf twoFrameStarted
         then streamInfo (outcomeDecoder (attempt ?pf None (twoFrameStarted, ())))
                = latched (fst (snd (frameInfoCall ?pf twoFrameStarted)))
                    (streamInfo twoFrameStarted) \<and>
              \<not> firstFrame (outcomeDecoder (attempt ?pf None (twoFrameStarted, ())))
         else infoKept twoFrameStarted (outcomeDecoder (attempt ?pf None (twoFrameStarted, ())))) \<and>
        (\<not> firstFrame ?t \<and> processStreamFrame 1 ?pf None (?t, ()) = Some (True, ?t', ())
           \<longrightarrow> streamInfo ?t' = streamInfo ?t \<and> \<not> firstFrame ?t')"
    by (rule streamInfo_latched_at_first_frame_info [THEN conjunct2, THEN conjunct1, THEN mp]) (rule k)
  with l r have b: "streamInfo (outcomeDecoder (attempt ?pf None (twoFrameStarted, ())))
                      = latched (fst (snd (frameInfoCall ?pf twoFrameStarted)))
                          (streamInfo twoFrameStarted)"
    and c: "streamInfo ?t' = streamInfo ?t" by simp_all
  have b': "streamInfo (outcomeDecoder (attempt ?pf None (twoFrameStarted, ()))) = demoInfo"
    unfolding twoFrame_first_pass by (simp add: demo_defs)
  have c': "streamInfo ?t' = demoInfo" "\<not> firstFrame ?t" using c i by simp_all
  show ?thesis
    using twoFrame_start a i g k l b' r c' by blast
qed

text \<open>
  Claim C7 as stated fails. In the file \<open>/a.mp3\<close> the first frame has two channels and its
  decoding fails; the second has one channel and decodes. The metadata is valid, with two
  channels, as soon as \<open>startStreaming\<close> returns, before any frame is decoded; the first
  call of \<open>processStreamFrame\<close> clears the first-frame flag on the frame whose decoding
  fails and delivers the second frame, and the metadata still shows two channels.
\<close>

theorem streamInfo_from_undecodable_frame_counterexample:
  "startStreaming (demoPlatform twoFrameFile) ''/a.mp3'' idleDecoder = (True, twoFrameStarted) \<and>
   valid (streamInfo twoFrameStarted) \<and> channels (streamInfo twoFrameStarted) = 2 \<and>
   firstFrame twoFrameStarted \<and>
   MP3Decode (demoPlatform twoFrameFile) () (window twoFrameStarted) = (- 2, 4, [], ()) \<and>
   attempt (demoPlatform twoFrameFile) None (twoFrameStarted, ())
     = Again (twoFrameStarted\<lparr>firstFrame := False, readPtr := 5, bytesLeft := 4\<rparr>, ()) \<and>
   nChans (fst (snd (frameInfoCall (demoPlatform twoFrameFile)
      (twoFrameStarted\<lparr>firstFrame := False, readPtr := 5, bytesLeft := 4\<rparr>)))) = 1 \<and>
   processStreamFrame 2 (demoPlatform twoFrameFile) None (twoFrameStarted, ())
     = Some (True, twoFrameStarted\<lparr>firstFrame := False, readPtr := 9, bytesLeft := 0,
                                   outputBuffer := [9, 1]\<rparr>, ()) \<and>
   channels (streamInfo (twoFrameStarted\<lparr>firstFrame := False, readPtr := 9, bytesLeft := 0,
                                         outputBuffer := [9, 1]\<rparr>)) = 2"
  by (simp add: numeral_2_eq_2 twoFrame_start twoFrame_first_pass twoFrame_second_pass)
     (simp add: frameInfoCall_def moveToSync_def window_def demo_defs)

section \<open>A stream without sync words\<close>

lemmas tail_defs = tailFile_def tailInfo_def tailStarted_def tailDecoded_def tailFull_def

lemma afterFill_fields [simp]:
  "readPtr (afterFill s f chunk) = 0"
  "streaming (afterFill s f chunk) = streaming s"
  "initialized (afterFill s f chunk) = initialized s"
  "streamFile (afterFill s f chunk) = Some (drop (length chunk) f)"
  "bytesLeft (afterFill s f chunk) = bytesLeft s + of_nat (length chunk)"
  "outputBuffer (afterFill s f chunk) = outputBuffer s"
  "decoder (afterFill s f chunk) = decoder s"
  by (simp_all add: afterFill_def)

text \<open>A refill keeps the unread bytes, in order, and appends what it read.\<close>

lemma afterFill_buffer:
  assumes "readPtr s + unat (bytesLeft s) \<le> length (streamBuffer s)"
    and "length (streamBuffer s) = STREAM_BUFFER_SIZE"
    and "unat (bytesLeft s) + length chunk \<le> STREAM_BUFFER_SIZE"
  shows "window (afterFill s f chunk) = window s @ chunk"
    and "unat (bytesLeft (afterFill s f chunk)) = unat (bytesLeft s) + length chunk"
    and "length (streamBuffer (afterFill s f chunk)) = STREAM_BUFFER_SIZE"
proof -
  let ?b = "if bytesLeft s > 0 \<and> readPtr s \<noteq> 0
            then store (streamBuffer s) 0 (window s) else streamBuffer s"
  have lb: "length ?b = STREAM_BUFFER_SIZE"
    using compact_length [OF assms(1)] assms(2) by simp
  have tb: "take (unat (bytesLeft s)) ?b = window s"
    by (rule compact_prefix [OF assms(1)])
  show u: "unat (bytesLeft (afterFill s f chunk)) = unat (bytesLeft s) + length chunk"
    using assms(3) by (simp add: unat_add_small)
  have "take (unat (bytesLeft s) + length chunk) (store ?b (unat (bytesLeft s)) chunk)
          = take (unat (bytesLeft s)) ?b @ chunk"
    using assms(3) lb by (intro take_store) simp
  then show "window (afterFill s f chunk) = window s @ chunk"
    using tb u by (simp add: window_def afterFill_def)
  show "length (streamBuffer (afterFill s f chunk)) = STREAM_BUFFER_SIZE"
    using assms(3) lb by (simp add: afterFill_def store_length)
qed

lemma attempt_no_sync:
  assumes "streaming s" "initialized s" "MP3FindSyncWord pf (window s) < 0"
  shows "attempt pf cb (s, p) = refillAndRetry s p"
  using assms by (simp add: attempt_def Let_def)

lemma refill_drained: "available s = 0 \<Longrightarrow> refillAndRetry s p = Return False (s, p)"
  by (simp add: refillAndRetry_def fillStreamBuffer_drained)

lemma refill_open:
  assumes "streamFile s = Some f" "f \<noteq> []" "unat (bytesLeft s) \<le> STREAM_BUFFER_SIZE"
  shows "refillAndRetry s p =
           (if unat (bytesLeft s) = STREAM_BUFFER_SIZE then Return False (afterFill s f [], p)
            else Again (afterFill s f (take (STREAM_BUFFER_SIZE - unat (bytesLeft s)) f), p))"
  using assms
  by (auto simp: refillAndRetry_def fillStreamBuffer_open unat_spaceLeft Let_def)

lemma getFileInfo_no_sync:
  assumes "\<forall>content w. spiffs pf path = Some content \<longrightarrow> prefix w content
             \<longrightarrow> MP3FindSyncWord pf w < 0"
  shows "getFileInfo pf path info s = (False, info, s)"
proof (cases "spiffs pf path")
  case None
  then show ?thesis by (simp add: getFileInfo_def)
next
  case (Some content)
  have "prefix (take (min (length content) 4096) content) content" by (rule take_is_prefix)
  with assms Some have "MP3FindSyncWord pf (take (min (length content) 4096) content) < 0"
    by blast
  then show ?thesis using Some by (simp add: getFileInfo_def Let_def)
qed

lemma startStreaming_no_sync:
  assumes "\<forall>content w. spiffs pf path = Some content \<longrightarrow> prefix w content
             \<longrightarrow> MP3FindSyncWord pf w < 0"
  shows "\<not> fst (startStreaming pf path s)"
    and "streaming (snd (startStreaming pf path s)) = streaming s"
  by (auto simp: startStreaming_def Let_def getFileInfo_no_sync [OF assms] split: option.splits)

lemma processStreamFrame_idle:
  "\<not> streaming s \<Longrightarrow> processStreamFrame (Suc n) pf cb (s, p) = Some (False, s, p)"
  by (simp add: attempt_def)

lemma no_sync_running:
  assumes run: "streaming s" "initialized s"
    and buf: "bufferOK s"
    and nosync: "\<forall>w. prefix w (unreadStream s) \<longrightarrow> MP3FindSyncWord pf w < 0"
    and fits: "length (unreadStream s) \<le> STREAM_BUFFER_SIZE"
  shows "\<exists>s'. (\<forall>cb p n. processStreamFrame (Suc (Suc n)) pf cb (s, p) = Some (False, s', p)) \<and>
              outputBuffer s' = outputBuffer s \<and> available s' = 0 \<and> window s' = unreadStream s"
proof -
  have len: "length (streamBuffer s) = STREAM_BUFFER_SIZE"
    and fit: "readPtr s + unat (bytesLeft s) \<le> STREAM_BUFFER_SIZE"
    using buf run(1) by (simp_all add: bufferOK_def)
  have bl: "unat (bytesLeft s) \<le> STREAM_BUFFER_SIZE" using fit by simp
  have wl: "length (window s) = unat (bytesLeft s)"
    using fit len by (simp add: window_length)
  have "prefix (window s) (unreadStream s)" by (simp add: unreadStream_def)
  with nosync have n1: "MP3FindSyncWord pf (window s) < 0" by blast
  have a1: "attempt pf cb (s, p) = refillAndRetry s p"
    for cb :: "('a, 'b) StreamCallback option" and p
    using run n1 by (rule attempt_no_sync)
  show ?thesis
  proof (cases "available s = 0")
    case True
    then have u: "unreadStream s = window s"
      by (auto simp: unreadStream_def available_def split: option.splits)
    show ?thesis
      using True u by (intro exI [of _ s]) (simp add: a1 refill_drained)
  next
    case False
    then obtain f where f: "streamFile s = Some f" "f \<noteq> []"
      by (auto simp: available_def split: option.splits)
    have u: "unreadStream s = window s @ f" using f by (simp add: unreadStream_def)
    show ?thesis
    proof (cases "unat (bytesLeft s) = STREAM_BUFFER_SIZE")
      case True
      have "\<not> length (unreadStream s) \<le> STREAM_BUFFER_SIZE"
        using u wl True f(2) by simp
      with fits show ?thesis by simp
    next
      case notfull: False
      define chunk where "chunk = take (STREAM_BUFFER_SIZE - unat (bytesLeft s)) f"
      define s1 where "s1 = afterFill s f chunk"
      have cl: "unat (bytesLeft s) + length chunk \<le> STREAM_BUFFER_SIZE"
        using bl by (simp add: chunk_def)
      have r1: "refillAndRetry s p = Again (s1, p)" for p :: 'b
        using notfull by (simp add: refill_open [OF f bl] s1_def chunk_def)
      have fit': "readPtr s + unat (bytesLeft s) \<le> length (streamBuffer s)"
        using fit len by simp
      have w1: "window s1 = window s @ chunk"
        and b1: "unat (bytesLeft s1) = unat (bytesLeft s) + length chunk"
        and l1: "length (streamBuffer s1) = STREAM_BUFFER_SIZE"
        unfolding s1_def by (rule afterFill_buffer [OF fit' len cl])+
      have run1: "streaming s1" "initialized s1" using run by (simp_all add: s1_def)
      have "prefix (window s1) (unreadStream s)"
        unfolding w1 u chunk_def by (simp add: take_is_prefix)
      with nosync have n2: "MP3FindSyncWord pf (window s1) < 0" by blast
      have a2: "attempt pf cb (s1, p) = refillAndRetry s1 p"
        for cb :: "('a, 'b) StreamCallback option" and p
        using run1 n2 by (rule attempt_no_sync)
      have f1: "streamFile s1 = Some (drop (length chunk) f)" by (simp add: s1_def)
      have o1: "outputBuffer s1 = outputBuffer s" by (simp add: s1_def)
      show ?thesis
      proof (cases "drop (length chunk) f = []")
        case True
        then have av: "available s1 = 0" using f1 by (simp add: available_def)
        from True have "chunk = f" by (simp add: chunk_def)
        then have "window s1 = unreadStream s" using w1 u by simp
        then show ?thesis
          using av o1 by (intro exI [of _ s1]) (simp add: a1 r1 a2 refill_drained)
      next
        case False
        then have short: "length chunk < length f" by simp
        then have full: "length chunk = STREAM_BUFFER_SIZE - unat (bytesLeft s)"
          by (simp add: chunk_def)
        have "\<not> length (unreadStream s) \<le> STREAM_BUFFER_SIZE"
          using u wl full short bl by simp
        with fits show ?thesis by simp
      qed
    qed
  qed
qed


text \<open>
  Claim C2, as the code has it. A source in which the sync search finds nothing, in any
  prefix of it, is rejected: \<open>startStreaming\<close> returns \<open>false\<close>, a decoder that was not
  streaming is not streaming afterwards, and every call of \<open>processStreamFrame\<close> then
  returns \<open>false\<close> at once, leaving the decoder and the callback's state as they are. And
  for a decoder that is streaming, with the buffer invariant, such that the sync search
  finds nothing in any prefix of the unread stream and the unread stream is no longer
  than the stream buffer: \<open>processStreamFrame\<close> returns within two passes, with \<open>false\<close>,
  whatever the callback is and without changing the callback's state or the output
  buffer, and the source has then been read to its end, the buffer holding the whole
  unread stream.
\<close>

theorem no_sync_stream_ends:
  "((\<forall>content w. spiffs pf path = Some content \<longrightarrow> prefix w content
        \<longrightarrow> MP3FindSyncWord pf w < 0)
      \<longrightarrow> \<not> fst (startStreaming pf path s0) \<and>
          (\<not> streaming s0
             \<longrightarrow> \<not> streaming (snd (startStreaming pf path s0)) \<and>
                 (\<forall>cb p n. processStreamFrame (Suc n) pf cb (snd (startStreaming pf path s0), p)
                             = Some (False, snd (startStreaming pf path s0), p)))) \<and>
   (streaming s \<and> initialized s \<and> bufferOK s \<and>
    (\<forall>w. prefix w (unreadStream s) \<longrightarrow> MP3FindSyncWord pf w < 0) \<and>
    length (unreadStream s) \<le> STREAM_BUFFER_SIZE
      \<longrightarrow> (\<exists>s'. (\<forall>cb p n. processStreamFrame (Suc (Suc n)) pf cb (s, p) = Some (False, s', p)) \<and>
                outputBuffer s' = outputBuffer s \<and> available s' = 0 \<and>
                window s' = unreadStream s))"
proof (intro conjI impI)
  assume n: "\<forall>content w. spiffs pf path = Some content \<longrightarrow> prefix w content
               \<longrightarrow> MP3FindSyncWord pf w < 0"
  show "\<not> fst (startStreaming pf path s0)" by (rule startStreaming_no_sync(1) [OF n])
  assume "\<not> streaming s0"
  then show i: "\<not> streaming (snd (startStreaming pf path s0))"
    by (simp add: startStreaming_no_sync(2) [OF n])
  show "\<forall>cb p n. processStreamFrame (Suc n) pf cb (snd (startStreaming pf path s0), p)
                   = Some (False, snd (startStreaming pf path s0), p)"
    using i by (simp add: processStreamFrame_idle del: processStreamFrame.simps)
next
  assume "streaming s \<and> initialized s \<and> bufferOK s \<and>
          (\<forall>w. prefix w (unreadStream s) \<longrightarrow> MP3FindSyncWord pf w < 0) \<and>
          length (unreadStream s) \<le> STREAM_BUFFER_SIZE"
  then show "\<exists>s'. (\<forall>cb p n. processStreamFrame (Suc (Suc n)) pf cb (s, p) = Some (False, s', p)) \<and>
                  outputBuffer s' = outputBuffer s \<and> available s' = 0 \<and>
                  window s' = unreadStream s"
    using no_sync_running [of s pf] by blast
qed

theorem no_sync_stream_ends_witness:
  "255 \<notin> set (replicate 8193 7 :: byte list) \<and>
   \<not> streaming idleDecoder \<and>
   \<not> fst (startStreaming (demoPlatform (replicate 8193 7)) ''/a.mp3'' idleDecoder) \<and>
   \<not> streaming (snd (startStreaming (demoPlatform (replicate 8193 7)) ''/a.mp3'' idleDecoder)) \<and>
   processStreamFrame 1 (demoPlatform (replicate 8193 7)) None
       (snd (startStreaming (demoPlatform (replicate 8193 7)) ''/a.mp3'' idleDecoder), ())
     = Some (False, snd (startStreaming (demoPlatform (replicate 8193 7)) ''/a.mp3'' idleDecoder), ()) \<and>
   streaming (demoDecoder [7, 7, 7] [8]) \<and> initialized (demoDecoder [7, 7, 7] [8]) \<and>
   bufferOK (demoDecoder [7, 7, 7] [8]) \<and>
   unreadStream (demoDecoder [7, 7, 7] [8]) = [7, 7, 7, 8] \<and>
   (\<exists>s'. processStreamFrame 2 (demoPlatform []) None (demoDecoder [7, 7, 7] [8], ())
            = Some (False, s', ()) \<and>
         outputBuffer s' = [] \<and> available s' = 0 \<and> window s' = [7, 7, 7, 8])"
proof -
  let ?s = "demoDecoder [7, 7, 7] [8]"
  let ?pf = "demoPlatform (replicate 8193 7)"
  let ?t = "snd (startStreaming ?pf ''/a.mp3'' idleDecoder)"
  have nosync: "MP3FindSyncWord (demoPlatform c) w < 0" if "255 \<notin> set w" for c w
    using that by (simp add: demoPlatform_def)
  have g0: "255 \<notin> set (replicate 8193 7 :: byte list)" by simp
  have g1: "\<forall>content w. spiffs ?pf ''/a.mp3'' = Some content \<longrightarrow> prefix w content
              \<longrightarrow> MP3FindSyncWord ?pf w < 0"
  proof (intro allI impI)
    fix content w :: "byte list"
    assume "spiffs ?pf ''/a.mp3'' = Some content"
    then have c: "content = replicate 8193 7" by (simp add: demoPlatform_def)
    assume "prefix w content"
    then have "set w \<subseteq> set content" by (rule set_mono_prefix)
    then have "255 \<notin> set w" unfolding c by auto
    then show "MP3FindSyncWord ?pf w < 0" by (rule nosync)
  qed
  have g2: "\<not> streaming idleDecoder" by (simp add: idleDecoder_def)
  have "\<not> fst (startStreaming ?pf ''/a.mp3'' idleDecoder) \<and>
        (\<not> streaming idleDecoder
           \<longrightarrow> \<not> streaming ?t \<and>
               (\<forall>cb p n. processStreamFrame (Suc n) ?pf cb (?t, (p :: unit)) = Some (False, ?t, p)))"
    by (rule no_sync_stream_ends [THEN conjunct1, THEN mp]) (rule g1)
  with g2 have a: "\<not> fst (startStreaming ?pf ''/a.mp3'' idleDecoder) \<and> \<not> streaming ?t \<and>
           (\<forall>cb p n. processStreamFrame (Suc n) ?pf cb (?t, (p :: unit)) = Some (False, ?t, p))"
    by blast
  then have "processStreamFrame (Suc 0) ?pf None (?t, ()) = Some (False, ?t, ())" by blast
  then have a3: "processStreamFrame 1 ?pf None (?t, ()) = Some (False, ?t, ())"
    by (simp only: One_nat_def)
  have h1: "streaming ?s" and h2: "initialized ?s" by (simp_all add: demo_defs)
  have h3: "bufferOK ?s" by (simp add: bufferOK_def demo_defs)
  have u: "unreadStream ?s = [7, 7, 7, 8]"
    by (simp add: unreadStream_def window_def demo_defs)
  have o: "outputBuffer ?s = []" by (simp add: demo_defs)
  have h4: "\<forall>w. prefix w (unreadStream ?s) \<longrightarrow> MP3FindSyncWord (demoPlatform []) w < 0"
  proof (intro allI impI)
    fix w :: "byte list"
    assume "prefix w (unreadStream ?s)"
    then have "set w \<subseteq> set (unreadStream ?s)" by (rule set_mono_prefix)
    then have "255 \<notin> set w" unfolding u by auto
    then show "MP3FindSyncWord (demoPlatform []) w < 0" by (rule nosync)
  qed
  have h5: "length (unreadStream ?s) \<le> STREAM_BUFFER_SIZE"
    unfolding u by (simp add: STREAM_BUFFER_SIZE_def)
  have "\<exists>s'. (\<forall>cb p n. processStreamFrame (Suc (Suc n)) (demoPlatform []) cb (?s, p)
                   = Some (False, s', (p :: unit))) \<and>
              outputBuffer s' = outputBuffer ?s \<and> available s' = 0 \<and>
              window s' = unreadStream ?s"
    by (rule no_sync_stream_ends [THEN conjunct2, THEN mp]) (intro conjI h1 h2 h3 h4 h5)
  then obtain s' where
    r: "\<forall>cb p n. processStreamFrame (Suc (Suc n)) (demoPlatform []) cb (?s, p)
                   = Some (False, s', (p :: unit))"
    and e: "outputBuffer s' = outputBuffer ?s" "available s' = 0" "window s' = unreadStream ?s"
    by blast
  from r have "processStreamFrame (Suc (Suc 0)) (demoPlatform []) None (?s, ())
                 = Some (False, s', ())" by blast
  then have "processStreamFrame 2 (demoPlatform []) None (?s, ()) = Some (False, s', ())"
    by (simp only: numeral_2_eq_2)
  moreover from e u o have "outputBuffer s' = [] \<and> available s' = 0 \<and> window s' = [7, 7, 7, 8]"
    by simp
  ultimately have b: "\<exists>s'. processStreamFrame 2 (demoPlatform []) None (?s, ())
            = Some (False, s', ()) \<and>
         outputBuffer s' = [] \<and> available s' = 0 \<and> window s' = [7, 7, 7, 8]" by blast
  show ?thesis
    using g0 g2 a a3 h1 h2 h3 u b by blast
qed

lemma tail_start:
  "startStreaming (demoPlatform tailFile) ''/a.mp3'' idleDecoder = (True, tailStarted)"
  by (simp add: startStreaming_def getFileInfo_def body_defs demo_defs tail_defs)

lemma tail_frame:
  "attempt (demoPlatform tailFile) None (tailStarted, ()) = Return True (tailDecoded, ())"
  by (simp add: body_defs demo_defs tail_defs)

lemma tail_first_pass:
  "attempt (demoPlatform tailFile) None (tailDecoded, ()) = Again (tailFull, ())"
  by (simp add: body_defs demo_defs tail_defs)

lemma tail_second_pass:
  "attempt (demoPlatform tailFile) None (tailFull, ()) = Return False (tailFull, ())"
  by (simp add: body_defs demo_defs tail_defs)

lemma no_sync_file_rejected:
  "startStreaming (demoPlatform (replicate 8193 7)) ''/a.mp3'' idleDecoder = (False, idleDecoder)"
  by (simp add: startStreaming_def getFileInfo_def body_defs demo_defs)

text \<open>
  Claim C2 as stated fails. For a file of 8193 bytes without a sync word,
  \<open>startStreaming\<close> returns \<open>false\<close> and \<open>processStreamFrame\<close> returns \<open>false\<close> at once: the
  source is never read. And in a stream that is running, after the one frame of
  \<open>tailFile\<close> has been decoded, no sync word is left in the unread stream; the next call
  of \<open>processStreamFrame\<close> fills the buffer to its capacity and returns \<open>false\<close> with one
  byte of the source still unread.
\<close>

theorem stream_ends_with_source_unread_counterexample:
  "255 \<notin> set (replicate 8193 7 :: byte list) \<and>
   startStreaming (demoPlatform (replicate 8193 7)) ''/a.mp3'' idleDecoder
     = (False, idleDecoder) \<and>
   processStreamFrame 1 (demoPlatform (replicate 8193 7)) None (idleDecoder, ())
     = Some (False, idleDecoder, ()) \<and>
   startStreaming (demoPlatform tailFile) ''/a.mp3'' idleDecoder = (True, tailStarted) \<and>
   processStreamFrame 1 (demoPlatform tailFile) None (tailStarted, ())
     = Some (True, tailDecoded, ()) \<and>
   255 \<notin> set (unreadStream tailDecoded) \<and>
   processStreamFrame 2 (demoPlatform tailFile) None (tailDecoded, ())
     = Some (False, tailFull, ()) \<and>
   streamFile tailFull = Some [7] \<and> available tailFull = 1"
proof -
  have a: "255 \<notin> set (replicate 8193 7 :: byte list)" by simp
  have b: "processStreamFrame 1 (demoPlatform (replicate 8193 7)) None (idleDecoder, ())
             = Some (False, idleDecoder, ())"
    by (simp add: attempt_def idleDecoder_def)
  have c: "processStreamFrame 1 (demoPlatform tailFile) None (tailStarted, ())
             = Some (True, tailDecoded, ())"
    by (simp add: tail_frame)
  have d: "255 \<notin> set (unreadStream tailDecoded)"
    by (simp add: unreadStream_def window_def demo_defs tail_defs)
  have e: "processStreamFrame 2 (demoPlatform tailFile) None (tailDecoded, ())
             = Some (False, tailFull, ())"
    by (simp add: numeral_2_eq_2 tail_first_pass tail_second_pass)
  have f: "streamFile tailFull = Some [7]" "available tailFull = 1"
    by (simp_all add: available_def demo_defs tail_defs)
  show ?thesis
    using a b c d e f tail_start no_sync_file_rejected by blast
qed

section \<open>What a playback session maintains\<close>

lemma fill_streaming [simp]: "streaming (snd (fillStreamBuffer s)) = streaming s"
  by (auto simp: fillStreamBuffer_def Let_def split: option.splits)

lemma refill_world:
  "J (streaming s) p \<Longrightarrow>
   J (streaming (fst (outcomeWorld (refillAndRetry s p)))) (snd (outcomeWorld (refillAndRetry s p)))"
proof -
  obtain b s' where f: "fillStreamBuffer s = (b, s')" by (cases "fillStreamBuffer s")
  then have "streaming s' = streaming s"
    using fill_streaming [of s] by simp
  then show "J (streaming s) p \<Longrightarrow> ?thesis"
    using f by (cases b) (simp_all add: refillAndRetry_def)
qed

lemma skip_world:
  assumes "J (streaming s) p"
  shows "J (streaming (fst (outcomeWorld (skipAndRetry s p)))) (snd (outcomeWorld (skipAndRetry s p)))"
proof -
  have "J (streaming (skipByte s)) p" using assms by (simp add: skipByte_def)
  then show ?thesis
    using refill_world [of J "skipByte s" p] by (simp add: skipAndRetry_def Let_def)
qed

lemma topUp_streaming [simp]: "streaming (topUp s) = streaming s"
  by (simp add: topUp_def)

lemma stopStreaming_streaming [simp]: "streaming (stopStreaming s) = False"
  by (simp add: stopStreaming_def)

lemma deliver_world:
  assumes "callbackKeeps J f" "streaming s" "J True p"
  shows "J (streaming (fst (outcomeWorld (deliver (Some f) fi s p))))
           (snd (outcomeWorld (deliver (Some f) fi s p)))"
proof -
  obtain c s' p'
    where r: "f (outputBuffer s) (of_int (outputSamps fi)) (streamInfo s) (s, p) = (c, s', p')"
    by (metis prod_cases3)
  with assms have "J (c \<and> streaming s') p'"
    unfolding callbackKeeps_def by blast
  with r show ?thesis by (cases c) (simp_all add: deliver_def)
qed

lemma decodeFrame_world:
  assumes "callbackKeeps J f" "streaming s" "J True p"
  shows "J (streaming (fst (outcomeWorld (decodeFrame pf (Some f) fi s p))))
           (snd (outcomeWorld (decodeFrame pf (Some f) fi s p)))"
proof -
  obtain r2 consumed pcm h2
    where d: "MP3Decode pf (decoder s) (window s) = (r2, consumed, pcm, h2)"
    by (metis prod_cases4)
  define s' where "s' = s\<lparr>decoder := h2, readPtr := readPtr s + consumed,
                     bytesLeft := bytesLeft s - of_nat consumed, outputBuffer := pcm\<rparr>"
  have st: "streaming s'" using assms(2) by (simp add: s'_def)
  then have j: "J (streaming s') p" using assms(3) by simp
  have e: "decodeFrame pf (Some f) fi s p =
            (if r2 \<noteq> 0 then if r2 = ERR_MP3_INDATA_UNDERFLOW pf then refillAndRetry s' p
                              else skipAndRetry s' p
             else deliver (Some f) fi s' p)"
    using d by (simp add: decodeFrame_def s'_def Let_def)
  show ?thesis
    unfolding e
    using refill_world [of J s' p, OF j] skip_world [of J s' p, OF j]
      deliver_world [OF assms(1) st assms(3), of fi]
    by simp
qed

lemma attempt_world:
  assumes "callbackKeeps J f" "J (streaming s) p"
  shows "J (streaming (fst (outcomeWorld (attempt pf (Some f) (s, p)))))
           (snd (outcomeWorld (attempt pf (Some f) (s, p))))"
proof (cases "streaming s")
  case False
  with assms(2) show ?thesis by (simp add: attempt_def)
next
  case True
  define s1 where "s1 = moveToSync (MP3FindSyncWord pf (window s)) s"
  obtain res fi h1 where g: "MP3GetNextFrameInfo pf (decoder s1) (window s1) = (res, fi, h1)"
    by (metis prod_cases3)
  define s2 where "s2 = latchStreamInfo fi (s1\<lparr>decoder := h1\<rparr>)"
  have jt: "J True p" using assms(2) True by simp
  have st1: "streaming (s1\<lparr>decoder := h1\<rparr>)"
    using True by (simp add: s1_def moveToSync_def)
  have st2: "streaming s2"
    using True by (simp add: s2_def s1_def moveToSync_def latchStreamInfo_def)
  have j1: "J (streaming (s1\<lparr>decoder := h1\<rparr>)) p" using st1 jt by simp
  have e: "attempt pf (Some f) (s, p) =
            (if \<not> streaming s \<or> \<not> initialized s then Return False (s, p)
             else if MP3FindSyncWord pf (window s) < 0 then refillAndRetry s p
             else if res \<noteq> 0 then skipAndRetry (s1\<lparr>decoder := h1\<rparr>) p
             else decodeFrame pf (Some f) fi s2 p)"
    using g by (simp add: attempt_def Let_def s1_def [symmetric] s2_def)
  show ?thesis
    unfolding e
    using assms(2) refill_world [of J s p, OF assms(2)]
      skip_world [of J "s1\<lparr>decoder := h1\<rparr>" p, OF j1]
      decodeFrame_world [OF assms(1) st2 jt, of pf fi]
    by simp
qed

lemma processStreamFrame_world:
  assumes "callbackKeeps J f" "J (streaming s) p"
    and "processStreamFrame n pf (Some f) (s, p) = Some (b, s', p')"
  shows "J (streaming s') p'"
  using assms(2,3)
proof (induction n arbitrary: s p)
  case 0
  then show ?case by simp
next
  case (Suc n)
  have k: "J (streaming (fst (outcomeWorld (attempt pf (Some f) (s, p)))))
             (snd (outcomeWorld (attempt pf (Some f) (s, p))))"
    using assms(1) Suc.prems(1) by (rule attempt_world)
  show ?case
  proof (cases "attempt pf (Some f) (s, p)")
    case (Return b1 w1)
    with Suc.prems(2) k show ?thesis by auto
  next
    case (Again w1)
    obtain s1 p1 where w1: "w1 = (s1, p1)" by (cases w1)
    from k Again w1 have "J (streaming s1) p1" by simp
    moreover from Suc.prems(2) Again w1
    have "processStreamFrame n pf (Some f) (s1, p1) = Some (b, s', p')" by simp
    ultimately show ?thesis by (rule Suc.IH)
  qed
qed

lemma playLoop_world:
  assumes "callbackKeeps J (streamingCallback pf)" "J (streaming s) p"
    and "playLoop n m pf (s, p) = Some (s', p')"
  shows "J (streaming s') p'"
  using assms(2,3)
proof (induction n arbitrary: s p)
  case 0
  then show ?case by simp
next
  case (Suc n)
  show ?case
  proof (cases "streaming s \<and> playing p")
    case False
    with Suc.prems show ?thesis by auto
  next
    case True
    with Suc.prems(2) obtain ok s1 p1
      where r: "processStreamFrame m pf (Some (streamingCallback pf)) (s, p) = Some (ok, s1, p1)"
        and c: "(if \<not> ok then Some (s1, p1) else playLoop n m pf (s1, p1)) = Some (s', p')"
      by (auto split: option.splits)
    have j: "J (streaming s1) p1"
      using assms(1) Suc.prems(1) r by (rule processStreamFrame_world)
    show ?thesis
    proof (cases ok)
      case True
      with c have "playLoop n m pf (s1, p1) = Some (s', p')" by simp
      with j show ?thesis by (rule Suc.IH)
    next
      case False
      with c j show ?thesis by simp
    qed
  qed
qed

lemma stop_player [simp]:
  "totalFrames (snd (stop (dec, pl))) = totalFrames pl"
  "reported (snd (stop (dec, pl))) = reported pl"
  "processedFrames (snd (stop (dec, pl))) = processedFrames pl"
  "progressCallback (snd (stop (dec, pl))) = progressCallback pl"
  "speaker (snd (stop (dec, pl))) = speaker pl"
  by (simp_all add: stop_def)

lemma updateProgress_fields [simp]:
  "totalFrames (updateProgress pl) = totalFrames pl"
  "processedFrames (updateProgress pl) = processedFrames pl + 1"
  "speaker (updateProgress pl) = speaker pl"
  "playing (updateProgress pl) = playing pl"
  "progressCallback (updateProgress pl) = progressCallback pl"
  "reported (updateProgress pl) =
     (if progressCallback pl \<and> totalFrames pl > 0
      then reported pl @ [(processedFrames pl + 1, totalFrames pl)]
      else reported pl)"
  by (simp_all add: updateProgress_def Let_def)

lemma streamingCallback_quiet:
  "\<not> forwards pf n pl \<Longrightarrow> streamingCallback pf d n i (dec, pl) = (False, dec, pl)"
  by (auto simp: forwards_def streamingCallback_def split: option.splits)

lemma streamingCallback_forwards:
  assumes "forwards pf n pl" "speaker pl = Some spk"
    and "writeSamples spk (applyVolume (take (unat n) d) (volume pl)) n = (ret, stopCalled, spk')"
    and "w1 = (if stopCalled then stop (dec, pl\<lparr>speaker := Some spk'\<rparr>)
               else (dec, pl\<lparr>speaker := Some spk'\<rparr>))"
  shows "streamingCallback pf d n i (dec, pl) =
           (if ret \<noteq> ESP_OK then (False, fst w1, snd w1)
            else (playing (updateProgress (snd w1)), fst w1, updateProgress (snd w1)))"
  using assms
  by (auto simp: forwards_def streamingCallback_def Let_def split: prod.splits)

lemma callback_sessionQuiet: "callbackKeeps (sessionQuiet r0) (streamingCallback pf)"
  unfolding callbackKeeps_def
proof (intro allI impI)
  fix d n i and s :: "'a MP3Decoder" and p c s' p'
  assume r: "streamingCallback pf d n i (s, p) = (c, s', p')" and q: "sessionQuiet r0 True p"
  show "sessionQuiet r0 (c \<and> streaming s') p'"
  proof (cases "forwards pf n p")
    case False
    with r q show ?thesis by (simp add: streamingCallback_quiet sessionQuiet_def)
  next
    case True
    then obtain spk where spk: "speaker p = Some spk" by (auto simp: forwards_def)
    obtain ret stopCalled spk'
      where w: "writeSamples spk (applyVolume (take (unat n) d) (volume p)) n = (ret, stopCalled, spk')"
      by (metis prod_cases3)
    define w1 where "w1 = (if stopCalled then stop (s, p\<lparr>speaker := Some spk'\<rparr>)
               else (s, p\<lparr>speaker := Some spk'\<rparr>))"
    have q1: "totalFrames (snd w1) = 0" "reported (snd w1) = r0"
      using q by (simp_all add: w1_def sessionQuiet_def)
    from streamingCallback_forwards [OF True spk w w1_def, of i] r q1
    show ?thesis by (auto simp: sessionQuiet_def split: if_splits)
  qed
qed

lemma start_keeps:
  "pending (snd (start spk)) = pending spk" "written (snd (start spk)) = written spk"
  by (simp_all add: start_def)

lemma session_reports_nothing:
  assumes "playFileWithProgress k m pf path vol obs (dec0, pl0) = Some (r, dec', pl')"
  shows "reported pl' = reported pl0"
proof (cases "speaker pl0")
  case None
  with assms show ?thesis by (simp add: playFileWithProgress_def)
next
  case (Some spk)
  show ?thesis
  proof (cases "\<not> playerInitialized pl0 \<or> playing pl0")
    case True
    with assms Some show ?thesis by (auto simp: playFileWithProgress_def)
  next
    case False
    define pl1 where "pl1 = pl0\<lparr>volume := constrain vol 0 1, progressCallback := obs,
                          totalFrames := 0, processedFrames := 0\<rparr>"
    obtain err spk1 where st: "(if \<not> active spk then start spk else (ESP_OK, spk)) = (err, spk1)"
      by (metis surj_pair)
    define pl2 where "pl2 = pl1\<lparr>speaker := Some spk1\<rparr>"
    obtain success dec1 where ss: "startStreaming pf path dec0 = (success, dec1)"
      by (metis surj_pair)
    have e: "playFileWithProgress k m pf path vol obs (dec0, pl0) =
              (if err \<noteq> ESP_OK then Some (False, dec0, pl2)
               else if \<not> success then Some (False, dec1, pl2\<lparr>playing := False\<rparr>)
               else case playLoop k m pf (dec1, pl2\<lparr>playing := True\<rparr>) of
                      None \<Rightarrow> None
                    | Some (dec2, pl3) \<Rightarrow>
                        Some (success, if streaming dec2 then stopStreaming dec2 else dec2,
                              pl3\<lparr>playing := False, progressCallback := False,
                                  speaker := map_option clear (speaker pl3)\<rparr>))"
      using Some False st ss
      by (simp add: playFileWithProgress_def Let_def pl1_def pl2_def)
    have q2: "reported pl2 = reported pl0" "totalFrames pl2 = 0"
      by (simp_all add: pl2_def pl1_def)
    show ?thesis
    proof (cases "err \<noteq> ESP_OK \<or> \<not> success")
      case True
      with assms q2 show ?thesis unfolding e by (auto split: if_splits)
    next
      case False
      with assms obtain dec2 pl3
        where l: "playLoop k m pf (dec1, pl2\<lparr>playing := True\<rparr>) = Some (dec2, pl3)"
          and f: "pl' = pl3\<lparr>playing := False, progressCallback := False,
                                  speaker := map_option clear (speaker pl3)\<rparr>"
        unfolding e by (auto split: option.splits)
      have "sessionQuiet (reported pl0) (streaming dec1) (pl2\<lparr>playing := True\<rparr>)"
        using q2 by (simp add: sessionQuiet_def)
      with callback_sessionQuiet have "sessionQuiet (reported pl0) (streaming dec2) pl3"
        using l by (rule playLoop_world)
      with f show ?thesis by (simp add: sessionQuiet_def)
    qed
  qed
qed

lemma callback_counts:
  assumes "forwards pf n pl" "speaker pl = Some spk"
    and "fst (writeSamples spk (applyVolume (take (unat n) d) (volume pl)) n) = ESP_OK"
    and "streamingCallback pf d n i (dec, pl) = (c, dec', pl')"
  shows "processedFrames pl' = processedFrames pl + 1"
    and "reported pl' =
          (if progressCallback pl \<and> totalFrames pl > 0
           then reported pl @ [(processedFrames pl + 1, totalFrames pl)]
           else reported pl)"
proof -
  obtain ret stopCalled spk'
    where w: "writeSamples spk (applyVolume (take (unat n) d) (volume pl)) n = (ret, stopCalled, spk')"
    by (metis prod_cases3)
  define w1 where "w1 = (if stopCalled then stop (dec, pl\<lparr>speaker := Some spk'\<rparr>)
               else (dec, pl\<lparr>speaker := Some spk'\<rparr>))"
  have ok: "ret = ESP_OK" using assms(3) w by simp
  have k: "processedFrames (snd w1) = processedFrames pl" "reported (snd w1) = reported pl"
    "progressCallback (snd w1) = progressCallback pl" "totalFrames (snd w1) = totalFrames pl"
    by (simp_all add: w1_def)
  from streamingCallback_forwards [OF assms(1,2) w w1_def, of i] assms(4) ok
  have p: "pl' = updateProgress (snd w1)" by simp
  show "processedFrames pl' = processedFrames pl + 1" using k by (simp add: p)
  show "reported pl' =
          (if progressCallback pl \<and> totalFrames pl > 0
           then reported pl @ [(processedFrames pl + 1, totalFrames pl)]
           else reported pl)"
    using k by (simp add: p)
qed

lemma unat_increment: "(x :: size_t) \<noteq> - 1 \<Longrightarrow> unat (x + 1) = unat x + 1"
  by (metis Suc_eq_plus1 add.commute add_eq_0_iff2 unatSuc)

lemma headroom_clean: "k < headroom sc \<Longrightarrow> clean (sc ! k)"
  unfolding headroom_def
  by (metis nth_mem set_takeWhileD takeWhile_nth)

lemma headroom_dirty: "headroom sc < length sc \<Longrightarrow> \<not> clean (sc ! headroom sc)"
  unfolding headroom_def by (rule nth_length_takeWhile)

lemma writeSamples_cases:
  assumes "writeSamples spk buf n = (ret, stopCalled, spk')"
  shows "(ret \<noteq> ESP_OK \<and> \<not> stopCalled \<and> spk' = spk) \<or>
         (written spk' = written spk @ [buf] \<and> pending spk' = tl (pending spk) \<and>
          (ret, stopCalled) = (case pending spk of [] \<Rightarrow> (ESP_OK, False) | e # rest \<Rightarrow> e))"
  using assms
  by (auto simp: writeSamples_def ESP_OK_def ESP_ERR_INVALID_ARG_def ESP_ERR_INVALID_STATE_def
      split: if_splits list.splits)

lemma stop_playing: "playing pl \<Longrightarrow> \<not> playing (snd (stop (dec, pl)))"
  by (simp add: stop_def)

lemma callback_accounted:
  assumes dirty: "headroom sc0 < length sc0"
  shows "callbackKeeps (accounted sc0 n0) (streamingCallback pf)"
  unfolding callbackKeeps_def
proof (intro allI impI)
  fix d n i and s :: "'a MP3Decoder" and p c s' p'
  assume r: "streamingCallback pf d n i (s, p) = (c, s', p')" and a: "accounted sc0 n0 True p"
  from a obtain spk k where spk: "speaker p = Some spk"
    and pend: "pending spk = drop k sc0" and wr: "length (written spk) = n0 + k"
    and kk: "k \<le> headroom sc0 \<or> (k = headroom sc0 + 1 \<and> \<not> playing p)"
    by (auto simp: accounted_def)
  show "accounted sc0 n0 (c \<and> streaming s') p'"
  proof (cases "forwards pf n p")
    case False
    with r have "c = False" "p' = p" by (simp_all add: streamingCallback_quiet)
    with spk pend wr kk show ?thesis by (auto simp: accounted_def)
  next
    case True
    then have pl: "playing p" by (simp add: forwards_def)
    with kk have k: "k \<le> headroom sc0" by simp
    with dirty have klen: "k < length sc0" by simp
    obtain ret stopCalled spk'
      where w: "writeSamples spk (applyVolume (take (unat n) d) (volume p)) n = (ret, stopCalled, spk')"
      by (metis prod_cases3)
    define w1 where "w1 = (if stopCalled then stop (s, p\<lparr>speaker := Some spk'\<rparr>)
               else (s, p\<lparr>speaker := Some spk'\<rparr>))"
    have sp1: "speaker (snd w1) = Some spk'" by (simp add: w1_def)
    have res: "(c, s', p') = (if ret \<noteq> ESP_OK then (False, fst w1, snd w1)
            else (playing (updateProgress (snd w1)), fst w1, updateProgress (snd w1)))"
      using streamingCallback_forwards [OF True spk w w1_def, of i] r by simp
    have sp': "speaker p' = Some spk'" using res sp1 by (auto split: if_splits)
    from writeSamples_cases [OF w]
    show ?thesis
    proof
      assume n: "ret \<noteq> ESP_OK \<and> \<not> stopCalled \<and> spk' = spk"
      with res have "c = False" by simp
      with sp' n pend wr k show ?thesis by (auto simp: accounted_def)
    next
      assume y: "written spk' = written spk @ [applyVolume (take (unat n) d) (volume p)] \<and>
          pending spk' = tl (pending spk) \<and>
          (ret, stopCalled) = (case pending spk of [] \<Rightarrow> (ESP_OK, False) | e # rest \<Rightarrow> e)"
      have dk: "drop k sc0 = sc0 ! k # drop (Suc k) sc0"
        using klen by (simp add: Cons_nth_drop_Suc)
      have pend': "pending spk' = drop (Suc k) sc0" using y pend dk by simp
      have wr': "length (written spk') = n0 + Suc k" using y wr by simp
      have e: "(ret, stopCalled) = sc0 ! k" using y pend dk by simp
      show ?thesis
      proof (cases "clean (sc0 ! k)")
        case True
        with headroom_dirty [OF dirty] have "k \<noteq> headroom sc0" by auto
        with k have "Suc k \<le> headroom sc0" by simp
        with sp' pend' wr' show ?thesis unfolding accounted_def by blast
      next
        case False
        with headroom_clean [of k sc0] k have keq: "k = headroom sc0" by (cases "k < headroom sc0") auto
        have "\<not> (c \<and> playing p')"
        proof (cases stopCalled)
          case True
          then have "\<not> playing (snd w1)" using pl by (simp add: w1_def stop_def)
          with res show ?thesis by (auto split: if_splits)
        next
          case nostop: False
          with False e have "ret \<noteq> ESP_OK" by (auto simp: clean_def dest: arg_cong [where f = fst] arg_cong [where f = snd])
          with res show ?thesis by simp
        qed
        then have "\<not> ((c \<and> streaming s') \<and> playing p')" by blast
        with sp' pend' wr' keq show ?thesis unfolding accounted_def by (intro exI [of _ spk'] exI [of _ "Suc k"]) simp
      qed
    qed
  qed
qed

lemma playFileWithProgress_cases:
  assumes "playFileWithProgress k m pf path vol obs (dec0, pl0) = Some (r, dec', pl')"
  shows "pl' = pl0 \<or>
         (\<exists>spk spk1 pl2.
            speaker pl0 = Some spk \<and> (spk1 = spk \<or> spk1 = snd (start spk)) \<and>
            pl2 = pl0\<lparr>volume := constrain vol 0 1, progressCallback := obs, totalFrames := 0,
                      processedFrames := 0, speaker := Some spk1\<rparr> \<and>
            (pl' = pl2 \<or> pl' = pl2\<lparr>playing := False\<rparr> \<or>
             (\<exists>dec1 dec2 pl3.
                playLoop k m pf (dec1, pl2\<lparr>playing := True\<rparr>) = Some (dec2, pl3) \<and>
                pl' = pl3\<lparr>playing := False, progressCallback := False,
                          speaker := map_option clear (speaker pl3)\<rparr>)))"
proof (cases "speaker pl0")
  case None
  with assms show ?thesis by (simp add: playFileWithProgress_def)
next
  case (Some spk)
  show ?thesis
  proof (cases "\<not> playerInitialized pl0 \<or> playing pl0")
    case True
    with assms Some show ?thesis by (auto simp: playFileWithProgress_def)
  next
    case False
    define pl1 where "pl1 = pl0\<lparr>volume := constrain vol 0 1, progressCallback := obs,
                          totalFrames := 0, processedFrames := 0\<rparr>"
    obtain err spk1 where st: "(if \<not> active spk then start spk else (ESP_OK, spk)) = (err, spk1)"
      by (metis surj_pair)
    define pl2 where "pl2 = pl1\<lparr>speaker := Some spk1\<rparr>"
    obtain success dec1 where ss: "startStreaming pf path dec0 = (success, dec1)"
      by (metis surj_pair)
    have e: "playFileWithProgress k m pf path vol obs (dec0, pl0) =
              (if err \<noteq> ESP_OK then Some (False, dec0, pl2)
               else if \<not> success then Some (False, dec1, pl2\<lparr>playing := False\<rparr>)
               else case playLoop k m pf (dec1, pl2\<lparr>playing := True\<rparr>) of
                      None \<Rightarrow> None
                    | Some (dec2, pl3) \<Rightarrow>
                        Some (success, if streaming dec2 then stopStreaming dec2 else dec2,
                              pl3\<lparr>playing := False, progressCallback := False,
                                  speaker := map_option clear (speaker pl3)\<rparr>))"
      using Some False st ss
      by (simp add: playFileWithProgress_def Let_def pl1_def pl2_def)
    have s1: "spk1 = spk \<or> spk1 = snd (start spk)"
      using st by (auto split: if_splits)
    have p2: "pl2 = pl0\<lparr>volume := constrain vol 0 1, progressCallback := obs, totalFrames := 0,
                      processedFrames := 0, speaker := Some spk1\<rparr>"
      by (simp add: pl2_def pl1_def)
    have "pl' = pl2 \<or> pl' = pl2\<lparr>playing := False\<rparr> \<or>
             (\<exists>dec1 dec2 pl3.
                playLoop k m pf (dec1, pl2\<lparr>playing := True\<rparr>) = Some (dec2, pl3) \<and>
                pl' = pl3\<lparr>playing := False, progressCallback := False,
                          speaker := map_option clear (speaker pl3)\<rparr>)"
      using assms unfolding e by (auto split: if_splits option.splits)
    with Some s1 p2 show ?thesis by blast
  qed
qed

lemma clear_keeps [simp]:
  "written (clear spk) = written spk" "pending (clear spk) = pending spk"
  by (simp_all add: clear_def)

lemma session_accounted:
  assumes spk: "speaker pl0 = Some spk"
    and dirty: "headroom (pending spk) < length (pending spk)"
    and run: "playFileWithProgress k m pf path vol obs (dec0, pl0) = Some (r, dec', pl')"
  shows "\<exists>spk'. speaker pl' = Some spk' \<and>
           length (written spk') \<le> length (written spk) + headroom (pending spk) + 1"
proof -
  from playFileWithProgress_cases [OF run]
  consider (same) "pl' = pl0"
    | (early) spk1 where "spk1 = spk \<or> spk1 = snd (start spk)" "speaker pl' = Some spk1"
    | (played) spk1 pl2 dec1 dec2 pl3 where "spk1 = spk \<or> spk1 = snd (start spk)"
        "pl2 = pl0\<lparr>volume := constrain vol 0 1, progressCallback := obs, totalFrames := 0,
                      processedFrames := 0, speaker := Some spk1\<rparr>"
        "playLoop k m pf (dec1, pl2\<lparr>playing := True\<rparr>) = Some (dec2, pl3)"
        "pl' = pl3\<lparr>playing := False, progressCallback := False,
                          speaker := map_option clear (speaker pl3)\<rparr>"
    using spk by fastforce
  then show ?thesis
  proof cases
    case same
    with spk show ?thesis by simp
  next
    case early
    then have "written spk1 = written spk" by (auto simp: start_keeps)
    with early show ?thesis by simp
  next
    case played
    have k1: "pending spk1 = pending spk" "written spk1 = written spk"
      using played(1) by (auto simp: start_keeps)
    have "accounted (pending spk) (length (written spk)) (streaming dec1) (pl2\<lparr>playing := True\<rparr>)"
      unfolding accounted_def
      using k1 by (intro exI [of _ spk1] exI [of _ 0]) (simp add: played(2))
    with callback_accounted [OF dirty]
    have "accounted (pending spk) (length (written spk)) (streaming dec2) pl3"
      using played(3) by (rule playLoop_world)
    then obtain spk3 j where "speaker pl3 = Some spk3"
      "length (written spk3) = length (written spk) + j" "j \<le> headroom (pending spk) + 1"
      by (auto simp: accounted_def)
    then show ?thesis
      using played(4) by (intro exI [of _ "clear spk3"]) simp
  qed
qed

lemma stop_when_playing:
  assumes "playing pl"
  shows "\<not> playing (snd (stop (dec, pl)))" "\<not> streaming (fst (stop (dec, pl)))"
    "speaker (snd (stop (dec, pl))) = speaker pl"
    "streaming dec \<Longrightarrow> fst (stop (dec, pl)) = stopStreaming dec"
  using assms by (simp_all add: stop_def)

lemma stop_when_idle: "\<not> playing pl \<Longrightarrow> stop (dec, pl) = (dec, pl)"
  by (simp add: stop_def)

lemma playLoop_head:
  "\<not> playing pl \<Longrightarrow> playLoop (Suc n) m pf (dec, pl) = Some (dec, pl)"
  by simp

lemma callback_entry:
  "\<not> playing pl \<Longrightarrow> streamingCallback pf d n i (dec, pl) = (False, dec, pl)"
  by (simp add: streamingCallback_quiet forwards_def)

lemma callback_write:
  assumes f: "forwards pf n pl" and spk: "speaker pl = Some spk"
    and up: "spkInitialized spk" "active spk" "n * 2 \<noteq> 0"
    and e: "(ret, stopCalled) = (case pending spk of [] \<Rightarrow> (ESP_OK, False) | e # rest \<Rightarrow> e)"
    and r: "streamingCallback pf d n i (dec, pl) = (c, dec', pl')"
  shows "\<exists>spk'. speaker pl' = Some spk' \<and>
           written spk' = written spk @ [applyVolume (take (unat n) d) (volume pl)]"
    and "c = (ret = ESP_OK \<and> \<not> stopCalled)"
    and "playing pl' = (\<not> stopCalled)"
proof -
  let ?b = "applyVolume (take (unat n) d) (volume pl)"
  define spk' where "spk' = spk\<lparr>pending := tl (pending spk), written := written spk @ [?b]\<rparr>"
  from f have n0: "n \<noteq> 0" and pl: "playing pl" by (simp_all add: forwards_def)
  have w: "writeSamples spk ?b n = (ret, stopCalled, spk')"
    using up n0 e by (auto simp: writeSamples_def spk'_def split: list.splits)
  define w1 where "w1 = (if stopCalled then stop (dec, pl\<lparr>speaker := Some spk'\<rparr>)
               else (dec, pl\<lparr>speaker := Some spk'\<rparr>))"
  have k: "speaker (snd w1) = Some spk'" "playing (snd w1) = (\<not> stopCalled)"
    using pl by (simp_all add: w1_def stop_def)
  from streamingCallback_forwards [OF f spk w w1_def, of i] r
  have res: "(c, dec', pl') = (if ret \<noteq> ESP_OK then (False, fst w1, snd w1)
            else (playing (updateProgress (snd w1)), fst w1, updateProgress (snd w1)))"
    by simp
  from res k have "speaker pl' = Some spk'" by (auto split: if_splits)
  then show "\<exists>spk'. speaker pl' = Some spk' \<and> written spk' = written spk @ [?b]"
    by (simp add: spk'_def)
  from res k show "c = (ret = ESP_OK \<and> \<not> stopCalled)" by (auto split: if_splits)
  from res k show "playing pl' = (\<not> stopCalled)" by (auto split: if_splits)
qed

text \<open>
  Claim C9, as the code has it. \<open>stop()\<close>, called while playing, clears the playing flag
  and leaves the decoder not streaming (it runs \<open>stopStreaming\<close> on a streaming decoder);
  it does not touch the speaker, and it does nothing when the player is not playing. The
  flag is read at the head of the playback loop, which ends when the flag is clear, at
  the entry of the stream callback, which then returns \<open>false\<close> without a sink write, and
  at its exit: a callback that gets as far as the sink write hands the whole
  volume-adjusted block to the driver, whether or not \<open>stop()\<close> is called during the
  write, and returns \<open>true\<close> exactly when the write returned \<open>ESP_OK\<close> and \<open>stop()\<close> was not
  called during it. And in a playback session, take the first sink write that fails or
  during which \<open>stop()\<close> is called on the other control path, the write number
  \<open>headroom + 1\<close>: no block is forwarded to the sink after it.
\<close>

theorem stop_halts_forwarding:
  "(playing pl0
      \<longrightarrow> \<not> playing (snd (stop (dec0, pl0))) \<and> \<not> streaming (fst (stop (dec0, pl0))) \<and>
          speaker (snd (stop (dec0, pl0))) = speaker pl0 \<and>
          (streaming dec0 \<longrightarrow> fst (stop (dec0, pl0)) = stopStreaming dec0)) \<and>
   (\<not> playing pl1
      \<longrightarrow> stop (dec1, pl1) = (dec1, pl1) \<and>
          playLoop (Suc j) m pf (dec1, pl1) = Some (dec1, pl1) \<and>
          streamingCallback pf d n i (dec1, pl1) = (False, dec1, pl1)) \<and>
   (forwards pf n pl2 \<and> speaker pl2 = Some spk2 \<and> spkInitialized spk2 \<and> active spk2 \<and>
    n * 2 \<noteq> 0 \<and>
    (ret, stopCalled) = (case pending spk2 of [] \<Rightarrow> (ESP_OK, False) | e # rest \<Rightarrow> e) \<and>
    streamingCallback pf d n i (dec2, pl2) = (c, dec3, pl3)
      \<longrightarrow> (\<exists>spk3. speaker pl3 = Some spk3 \<and>
             written spk3 = written spk2 @ [applyVolume (take (unat n) d) (volume pl2)]) \<and>
          c = (ret = ESP_OK \<and> \<not> stopCalled) \<and> playing pl3 = (\<not> stopCalled)) \<and>
   (speaker pl = Some spk \<and> headroom (pending spk) < length (pending spk) \<and>
    playFileWithProgress k m pf path vol obs (dec, pl) = Some (r, dec', pl')
      \<longrightarrow> (\<exists>spk'. speaker pl' = Some spk' \<and>
             length (written spk') \<le> length (written spk) + headroom (pending spk) + 1))"
proof (intro conjI impI)
  assume p: "playing pl0"
  from p show "\<not> playing (snd (stop (dec0, pl0)))" by (rule stop_when_playing)
  from p show "\<not> streaming (fst (stop (dec0, pl0)))" by (rule stop_when_playing)
  from p show "speaker (snd (stop (dec0, pl0))) = speaker pl0" by (rule stop_when_playing)
  assume "streaming dec0"
  with p show "fst (stop (dec0, pl0)) = stopStreaming dec0" by (rule stop_when_playing)
next
  assume p: "\<not> playing pl1"
  from p show "stop (dec1, pl1) = (dec1, pl1)" by (rule stop_when_idle)
  from p show "playLoop (Suc j) m pf (dec1, pl1) = Some (dec1, pl1)" by (rule playLoop_head)
  from p show "streamingCallback pf d n i (dec1, pl1) = (False, dec1, pl1)"
    by (rule callback_entry)
next
  assume a: "forwards pf n pl2 \<and> speaker pl2 = Some spk2 \<and> spkInitialized spk2 \<and> active spk2 \<and>
    n * 2 \<noteq> 0 \<and>
    (ret, stopCalled) = (case pending spk2 of [] \<Rightarrow> (ESP_OK, False) | e # rest \<Rightarrow> e) \<and>
    streamingCallback pf d n i (dec2, pl2) = (c, dec3, pl3)"
  then have f: "forwards pf n pl2" and s: "speaker pl2 = Some spk2"
    and u: "spkInitialized spk2" "active spk2" "n * 2 \<noteq> 0"
    and e: "(ret, stopCalled) = (case pending spk2 of [] \<Rightarrow> (ESP_OK, False) | e # rest \<Rightarrow> e)"
    and r: "streamingCallback pf d n i (dec2, pl2) = (c, dec3, pl3)"
    by simp_all
  show "\<exists>spk3. speaker pl3 = Some spk3 \<and>
             written spk3 = written spk2 @ [applyVolume (take (unat n) d) (volume pl2)]"
    using f s u e r by (rule callback_write)
  show "c = (ret = ESP_OK \<and> \<not> stopCalled)" using f s u e r by (rule callback_write)
  show "playing pl3 = (\<not> stopCalled)" using f s u e r by (rule callback_write)
next
  assume "speaker pl = Some spk \<and> headroom (pending spk) < length (pending spk) \<and>
    playFileWithProgress k m pf path vol obs (dec, pl) = Some (r, dec', pl')"
  then show "\<exists>spk'. speaker pl' = Some spk' \<and>
             length (written spk') \<le> length (written spk) + headroom (pending spk) + 1"
    using session_accounted [of pl spk k m pf path vol obs dec r dec' pl'] by blast
qed

section \<open>The buffer invariant for a codec that stays inside the window\<close>

text \<open>
  With such a codec, and a callback that keeps the invariant, every pass and every call
  of \<open>processStreamFrame\<close> keeps it, and \<open>startStreaming\<close> establishes it. The player's
  callback keeps it, and keeps the stream metadata.
\<close>

lemma window_le: "length (window s) \<le> unat (bytesLeft s)"
  by (simp add: window_def)

lemma fill_bufferOK:
  assumes "bufferOK s"
  shows "bufferOK (snd (fillStreamBuffer s))"
proof (cases "available s = 0")
  case True
  with assms show ?thesis by (simp add: fillStreamBuffer_drained)
next
  case False
  then obtain f where f: "streamFile s = Some f" "f \<noteq> []"
    by (auto simp: available_def split: option.splits)
  have bl: "unat (bytesLeft s) \<le> STREAM_BUFFER_SIZE" using assms by (simp add: bufferOK_def)
  define chunk where "chunk = take (STREAM_BUFFER_SIZE - unat (bytesLeft s)) f"
  have e: "snd (fillStreamBuffer s) = afterFill s f chunk"
    using f bl by (simp add: fillStreamBuffer_open unat_spaceLeft Let_def chunk_def)
  have cl: "unat (bytesLeft s) + length chunk \<le> STREAM_BUFFER_SIZE"
    using bl by (simp add: chunk_def)
  have u: "unat (bytesLeft (afterFill s f chunk)) = unat (bytesLeft s) + length chunk"
    using cl by (simp add: unat_add_small)
  have l: "length (streamBuffer (afterFill s f chunk)) = STREAM_BUFFER_SIZE" if "streaming s"
  proof -
    from that assms have len: "length (streamBuffer s) = STREAM_BUFFER_SIZE"
      and "readPtr s + unat (bytesLeft s) \<le> STREAM_BUFFER_SIZE"
      by (simp_all add: bufferOK_def)
    then have "readPtr s + unat (bytesLeft s) \<le> length (streamBuffer s)" by simp
    then show ?thesis using len cl by (rule afterFill_buffer(3))
  qed
  show ?thesis
    unfolding e bufferOK_def using u cl l by simp
qed

lemma refill_bufferOK:
  "bufferOK s \<Longrightarrow> bufferOK (outcomeDecoder (refillAndRetry s p))"
  using fill_bufferOK [of s]
  by (cases "fillStreamBuffer s") (auto simp: refillAndRetry_def split: bool.splits)

lemma skipByte_exact:
  assumes "bytesLeft s \<noteq> 0"
  shows "unat (bytesLeft (skipByte s)) = unat (bytesLeft s) - 1"
    and "readPtr (skipByte s) = readPtr s + 1"
    and "streamBuffer (skipByte s) = streamBuffer s"
    and "streamFile (skipByte s) = streamFile s"
proof -
  have "1 \<le> unat (bytesLeft s)" using assms by (simp add: unat_gt_0 Suc_leI)
  then have "unat (bytesLeft s - of_nat 1) = unat (bytesLeft s) - 1" by (rule unat_sub_small)
  then show "unat (bytesLeft (skipByte s)) = unat (bytesLeft s) - 1"
    by (simp add: skipByte_def)
qed (simp_all add: skipByte_def)

lemma skip_bufferOK:
  assumes "bufferOK s" "bytesLeft s \<noteq> 0"
  shows "bufferOK (outcomeDecoder (skipAndRetry s p))"
proof -
  have pos: "1 \<le> unat (bytesLeft s)" using assms(2) by (simp add: unat_gt_0 Suc_leI)
  have "bufferOK (skipByte s)"
    using assms(1) skipByte_exact(1,2) [OF assms(2)] pos
    by (simp add: bufferOK_def) (simp add: skipByte_def)
  then show ?thesis
    using refill_bufferOK [of "skipByte s" p] by (simp add: skipAndRetry_def Let_def)
qed

lemma moveToSync_bufferOK:
  assumes "bufferOK s" "0 \<le> offset" "offset < int (length (window s))"
  shows "bufferOK (moveToSync offset s)" and "bytesLeft (moveToSync offset s) \<noteq> 0"
proof -
  have lt: "nat offset < unat (bytesLeft s)"
    using assms(2,3) window_le [of s] by linarith
  have "of_int offset = (of_nat (nat offset) :: size_t)" using assms(2) by simp
  then have u: "unat (bytesLeft s - of_int offset) = unat (bytesLeft s) - nat offset"
    using lt by (simp add: unat_sub_small)
  show "bufferOK (moveToSync offset s)"
    using assms(1) u lt by (simp add: bufferOK_def moveToSync_def)
  show "bytesLeft (moveToSync offset s) \<noteq> 0"
    using u lt by (auto simp: moveToSync_def dest: arg_cong [where f = unat])
qed

lemma topUp_bufferOK: "bufferOK s \<Longrightarrow> bufferOK (topUp s)"
  by (simp add: topUp_def fill_bufferOK)

lemma stopStreaming_bufferOK: "bufferOK (stopStreaming s) \<longleftrightarrow> bufferOK s \<or> streaming s"
  by (auto simp: stopStreaming_def bufferOK_def)

lemma deliver_bufferOK:
  assumes "callbackKeepsBuffer cb" "bufferOK s"
  shows "bufferOK (outcomeDecoder (deliver cb fi s p))"
proof (cases cb)
  case None
  with assms(2) show ?thesis by (simp add: deliver_def topUp_bufferOK)
next
  case (Some f)
  obtain c s' p'
    where r: "f (outputBuffer s) (of_int (outputSamps fi)) (streamInfo s) (s, p) = (c, s', p')"
    by (metis prod_cases3)
  with assms Some have "bufferOK s'" unfolding callbackKeepsBuffer_def by blast
  with Some r show ?thesis
    by (simp add: deliver_def topUp_bufferOK stopStreaming_bufferOK)
qed

lemma decodeFrame_bufferOK:
  assumes "codecInWindow pf" "callbackKeepsBuffer cb" "bufferOK s"
  shows "bufferOK (outcomeDecoder (decodeFrame pf cb fi s p))"
proof -
  obtain r2 consumed pcm h2
    where d: "MP3Decode pf (decoder s) (window s) = (r2, consumed, pcm, h2)"
    by (metis prod_cases4)
  define s' where "s' = s\<lparr>decoder := h2, readPtr := readPtr s + consumed,
                     bytesLeft := bytesLeft s - of_nat consumed, outputBuffer := pcm\<rparr>"
  from assms(1) d have c: "consumed \<le> length (window s)"
    and c': "r2 \<noteq> 0 \<and> r2 \<noteq> ERR_MP3_INDATA_UNDERFLOW pf \<longrightarrow> consumed < length (window s)"
    unfolding codecInWindow_def by blast+
  have le: "consumed \<le> unat (bytesLeft s)" using c window_le [of s] by linarith
  then have u: "unat (bytesLeft s') = unat (bytesLeft s) - consumed"
    by (simp add: s'_def unat_sub_small)
  have ok: "bufferOK s'"
    using assms(3) u le by (simp add: bufferOK_def) (simp add: s'_def)
  have nz: "bytesLeft s' \<noteq> 0" if "r2 \<noteq> 0" "r2 \<noteq> ERR_MP3_INDATA_UNDERFLOW pf"
  proof -
    from that c' have "consumed < unat (bytesLeft s)" using window_le [of s] by linarith
    with u show ?thesis by (auto dest: arg_cong [where f = unat])
  qed
  have e: "decodeFrame pf cb fi s p =
            (if r2 \<noteq> 0 then if r2 = ERR_MP3_INDATA_UNDERFLOW pf then refillAndRetry s' p
                              else skipAndRetry s' p
             else deliver cb fi s' p)"
    using d by (simp add: decodeFrame_def s'_def Let_def)
  show ?thesis
    unfolding e
    using refill_bufferOK [OF ok, of p] skip_bufferOK [OF ok, of p] nz
      deliver_bufferOK [OF assms(2) ok, of fi p]
    by auto
qed

lemma latch_bufferOK: "bufferOK (latchStreamInfo fi s) = bufferOK s"
  by (simp add: latchStreamInfo_def bufferOK_def)

lemma attempt_bufferOK:
  assumes "codecInWindow pf" "callbackKeepsBuffer cb" "bufferOK s"
  shows "bufferOK (outcomeDecoder (attempt pf cb (s, p)))"
proof -
  define s1 where "s1 = moveToSync (MP3FindSyncWord pf (window s)) s"
  obtain res fi h1 where g: "MP3GetNextFrameInfo pf (decoder s1) (window s1) = (res, fi, h1)"
    by (metis prod_cases3)
  define s2 where "s2 = latchStreamInfo fi (s1\<lparr>decoder := h1\<rparr>)"
  have e: "attempt pf cb (s, p) =
            (if \<not> streaming s \<or> \<not> initialized s then Return False (s, p)
             else if MP3FindSyncWord pf (window s) < 0 then refillAndRetry s p
             else if res \<noteq> 0 then skipAndRetry (s1\<lparr>decoder := h1\<rparr>) p
             else decodeFrame pf cb fi s2 p)"
    using g by (simp add: attempt_def Let_def s1_def [symmetric] s2_def)
  show ?thesis
  proof (cases "0 \<le> MP3FindSyncWord pf (window s)")
    case False
    with assms(3) show ?thesis
      unfolding e using refill_bufferOK [OF assms(3), of p] by simp
  next
    case True
    have "MP3FindSyncWord pf (window s) < int (length (window s))"
      using assms(1) unfolding codecInWindow_def by blast
    from moveToSync_bufferOK [OF assms(3) True this]
    have ok1: "bufferOK (s1\<lparr>decoder := h1\<rparr>)" and nz1: "bytesLeft (s1\<lparr>decoder := h1\<rparr>) \<noteq> 0"
      by (simp_all add: s1_def bufferOK_def)
    have ok2: "bufferOK s2" using ok1 by (simp add: s2_def latch_bufferOK)
    show ?thesis
      unfolding e
      using assms(3) True skip_bufferOK [OF ok1 nz1, of p]
        decodeFrame_bufferOK [OF assms(1,2) ok2, of fi p]
      by simp
  qed
qed

lemma processStreamFrame_bufferOK:
  assumes "codecInWindow pf" "callbackKeepsBuffer cb" "bufferOK s"
    and "processStreamFrame n pf cb (s, p) = Some (b, s', p')"
  shows "bufferOK s'"
  using assms(3,4)
proof (induction n arbitrary: s p)
  case 0
  then show ?case by simp
next
  case (Suc n)
  have k: "bufferOK (outcomeDecoder (attempt pf cb (s, p)))"
    using assms(1,2) Suc.prems(1) by (rule attempt_bufferOK)
  show ?case
  proof (cases "attempt pf cb (s, p)")
    case (Return b1 w1)
    with Suc.prems(2) k show ?thesis by auto
  next
    case (Again w1)
    obtain s1 p1 where w1: "w1 = (s1, p1)" by (cases w1)
    from k Again w1 have "bufferOK s1" by simp
    moreover from Suc.prems(2) Again w1
    have "processStreamFrame n pf cb (s1, p1) = Some (b, s', p')" by simp
    ultimately show ?thesis by (rule Suc.IH)
  qed
qed

lemma startStreaming_bufferOK:
  assumes "startStreaming pf path s = (True, s')"
  shows "bufferOK s'"
proof -
  from assms obtain content info s3 where
    g: "getFileInfo pf path (streamInfo (s\<lparr>streamFile := Some content,
            streamBuffer := replicate STREAM_BUFFER_SIZE 0\<rparr>))
          (s\<lparr>streamFile := Some content, streamBuffer := replicate STREAM_BUFFER_SIZE 0\<rparr>)
        = (True, info, s3)"
    and f: "fillStreamBuffer (s3\<lparr>streamInfo := info, bytesLeft := 0, readPtr := 0,
                                   firstFrame := True, streaming := True\<rparr>) = (True, s')"
    by (auto simp: startStreaming_def Let_def split: if_splits option.splits prod.splits bool.splits)
  have b3: "streamBuffer s3 = replicate STREAM_BUFFER_SIZE 0"
    using g by (auto simp: getFileInfo_def Let_def split: if_splits option.splits prod.splits)
  have "bufferOK (s3\<lparr>streamInfo := info, bytesLeft := 0, readPtr := 0,
                                   firstFrame := True, streaming := True\<rparr>)"
    using b3 by (simp add: bufferOK_def)
  from fill_bufferOK [OF this] f show ?thesis by simp
qed

lemma streamingCallback_keepsStreamInfo: "keepsStreamInfo (Some (streamingCallback pf))"
  unfolding keepsStreamInfo_def
proof (intro allI impI)
  fix f :: "('a, MP3Player) StreamCallback" and d n i s p c s' p'
  assume "Some (streamingCallback pf) = Some f" and r: "f d n i (s, p) = (c, s', p')"
  then have r': "streamingCallback pf d n i (s, p) = (c, s', p')" by simp
  show "streamInfo s' = streamInfo s \<and> firstFrame s' = firstFrame s"
  proof (cases "forwards pf n p")
    case False
    with r' show ?thesis by (simp add: streamingCallback_quiet)
  next
    case True
    then obtain spk where spk: "speaker p = Some spk" by (auto simp: forwards_def)
    obtain ret stopCalled spk'
      where w: "writeSamples spk (applyVolume (take (unat n) d) (volume p)) n = (ret, stopCalled, spk')"
      by (metis prod_cases3)
    define w1 where "w1 = (if stopCalled then stop (s, p\<lparr>speaker := Some spk'\<rparr>)
               else (s, p\<lparr>speaker := Some spk'\<rparr>))"
    have k: "streamInfo (fst w1) = streamInfo s" "firstFrame (fst w1) = firstFrame s"
      by (simp_all add: w1_def stop_def)
    from streamingCallback_forwards [OF True spk w w1_def, of i] r' k
    show ?thesis by (auto split: if_splits)
  qed
qed

lemma streamingCallback_keepsBuffer: "callbackKeepsBuffer (Some (streamingCallback pf))"
  unfolding callbackKeepsBuffer_def
proof (intro allI impI)
  fix f :: "('a, MP3Player) StreamCallback" and d n i s p c s' p'
  assume "Some (streamingCallback pf) = Some f" and r: "f d n i (s, p) = (c, s', p')"
    and ok: "bufferOK s"
  then have r': "streamingCallback pf d n i (s, p) = (c, s', p')" by simp
  show "bufferOK s'"
  proof (cases "forwards pf n p")
    case False
    with r' ok show ?thesis by (simp add: streamingCallback_quiet)
  next
    case True
    then obtain spk where spk: "speaker p = Some spk" by (auto simp: forwards_def)
    obtain ret stopCalled spk'
      where w: "writeSamples spk (applyVolume (take (unat n) d) (volume p)) n = (ret, stopCalled, spk')"
      by (metis prod_cases3)
    define w1 where "w1 = (if stopCalled then stop (s, p\<lparr>speaker := Some spk'\<rparr>)
               else (s, p\<lparr>speaker := Some spk'\<rparr>))"
    have k: "bufferOK (fst w1)"
      using ok by (simp add: w1_def stop_def stopStreaming_bufferOK)
    from streamingCallback_forwards [OF True spk w w1_def, of i] r' k
    show ?thesis by (auto split: if_splits)
  qed
qed

section \<open>Concrete playback sessions\<close>

lemmas player_defs = streamingCallback_def updateProgress_def writeSamples_def start_def
  clear_def stop_def constrain_def demoPlayer_def demoSpeaker_def goodFrameFile_def
  goodFrameStarted_def goodFrameStopped_def twoGoodFile_def twoGoodStarted_def ESP_OK_def
  applyVolume_def

lemmas session_defs = playFileWithProgress_def Let_def demoPlayer_def demoSpeaker_def
  constrain_def ESP_OK_def

lemma good_start:
  "startStreaming (demoPlatform goodFrameFile) ''/a.mp3'' idleDecoder = (True, goodFrameStarted)"
  by (simp add: startStreaming_def getFileInfo_def body_defs demo_defs player_defs)

lemma twoGood_start:
  "startStreaming (demoPlatform twoGoodFile) ''/a.mp3'' idleDecoder = (True, twoGoodStarted)"
  by (simp add: startStreaming_def getFileInfo_def body_defs demo_defs player_defs)

lemma failed_write_session:
  "playFileWithProgress 1 1 (demoPlatform goodFrameFile) ''/a.mp3'' 1 False
     (idleDecoder, demoPlayer [(- 1, False)])
   = Some (True, goodFrameStopped,
           (demoPlayer [])\<lparr>volume := 1, speaker := Some (demoSpeaker [] [[100, 50]] 1)\<rparr>)"
  by (simp add: session_defs good_start)
     (simp add: player_defs body_defs demo_defs)

lemma observed_session:
  "playFileWithProgress 2 1 (demoPlatform goodFrameFile) ''/a.mp3'' 1 True
     (idleDecoder, demoPlayer [])
   = Some (True, goodFrameStopped,
           (demoPlayer [])\<lparr>volume := 1, processedFrames := 1,
                            speaker := Some (demoSpeaker [] [[100, 50]] 1)\<rparr>)"
  by (simp add: session_defs good_start numeral_2_eq_2)
     (simp add: player_defs body_defs demo_defs)

lemma stopped_session:
  "playFileWithProgress 2 1 (demoPlatform twoGoodFile) ''/a.mp3'' 1 False
     (idleDecoder, demoPlayer [(0, True)])
   = Some (True, goodFrameStopped,
           (demoPlayer [])\<lparr>volume := 1, processedFrames := 1,
                            speaker := Some (demoSpeaker [] [[100, 50]] 1)\<rparr>)"
  by (simp add: session_defs twoGood_start numeral_2_eq_2)
     (simp add: player_defs body_defs demo_defs)

text \<open>
  Claim C1 (a failed sink write makes \<open>playFileWithProgress\<close> return \<open>false\<close>). The file is
  one frame; the driver fails the first write. The callback returns \<open>false\<close>, the stream
  is stopped and the loop left, with no second write; but the function returns the value
  that \<open>startStreaming\<close> gave, \<open>true\<close>, as it does when the stream plays to its end.
\<close>

theorem failed_sink_write_returns_true:
  "fst (writeSamples (demoSpeaker [(- 1, False)] [] 0) [100, 50] 2) \<noteq> ESP_OK \<and>
   playFileWithProgress 1 1 (demoPlatform goodFrameFile) ''/a.mp3'' 1 False
     (idleDecoder, demoPlayer [(- 1, False)])
   = Some (True, goodFrameStopped,
           (demoPlayer [])\<lparr>volume := 1, speaker := Some (demoSpeaker [] [[100, 50]] 1)\<rparr>)"
proof -
  have "fst (writeSamples (demoSpeaker [(- 1, False)] [] 0) [100, 50] 2) \<noteq> ESP_OK"
    by (simp add: writeSamples_def demoSpeaker_def ESP_OK_def)
  then show ?thesis using failed_write_session by blast
qed

theorem failed_sink_write_returns_true_witness:
  "playerInitialized (demoPlayer [(- 1, False)]) \<and> \<not> playing (demoPlayer [(- 1, False)]) \<and>
   speaker (demoPlayer [(- 1, False)]) = Some (demoSpeaker [(- 1, False)] [] 0) \<and>
   (\<exists>dec pl. playFileWithProgress 1 1 (demoPlatform goodFrameFile) ''/a.mp3'' 1 False
                (idleDecoder, demoPlayer [(- 1, False)]) = Some (True, dec, pl) \<and>
             map_option written (speaker pl) = Some [[100, 50]])"
proof -
  have "playerInitialized (demoPlayer [(- 1, False)])" "\<not> playing (demoPlayer [(- 1, False)])"
    "speaker (demoPlayer [(- 1, False)]) = Some (demoSpeaker [(- 1, False)] [] 0)"
    "map_option written
       (speaker ((demoPlayer [])\<lparr>volume := 1,
                                  speaker := Some (demoSpeaker [] [[100, 50]] 1)\<rparr>))
     = Some [[100, 50]]"
    by (simp_all add: demoPlayer_def demoSpeaker_def)
  then show ?thesis using failed_sink_write_returns_true by blast
qed

text \<open>
  Claim C8 (every frame forwarded to the sink raises the processed-frame count and is
  reported to the observer that was supplied). The session is given an observer; the
  file is one frame, which is forwarded to the sink with status \<open>ESP_OK\<close>. The
  processed-frame count becomes 1, but the observer is not called: the call is guarded by
  \<open>_totalFrames > 0\<close>, and \<open>_totalFrames\<close> is 0 throughout the session.
\<close>

theorem supplied_observer_not_called:
  "playFileWithProgress 2 1 (demoPlatform goodFrameFile) ''/a.mp3'' 1 True
     (idleDecoder, demoPlayer [])
   = Some (True, goodFrameStopped,
           (demoPlayer [])\<lparr>volume := 1, processedFrames := 1,
                            speaker := Some (demoSpeaker [] [[100, 50]] 1)\<rparr>) \<and>
   written (demoSpeaker [] [[100, 50]] 1) = [[100, 50]] \<and>
   reported ((demoPlayer [])\<lparr>volume := 1, processedFrames := 1,
                              speaker := Some (demoSpeaker [] [[100, 50]] 1)\<rparr>) = []"
proof -
  have "written (demoSpeaker [] [[100, 50]] 1) = [[100, 50]]"
    "reported ((demoPlayer [])\<lparr>volume := 1, processedFrames := 1,
                               speaker := Some (demoSpeaker [] [[100, 50]] 1)\<rparr>) = []"
    by (simp_all add: demoPlayer_def demoSpeaker_def)
  then show ?thesis using observed_session by blast
qed

theorem supplied_observer_not_called_witness:
  "playerInitialized (demoPlayer []) \<and> \<not> playing (demoPlayer []) \<and>
   speaker (demoPlayer []) = Some (demoSpeaker [] [] 0) \<and>
   (\<exists>dec pl. playFileWithProgress 2 1 (demoPlatform goodFrameFile) ''/a.mp3'' 1 True
                (idleDecoder, demoPlayer []) = Some (True, dec, pl) \<and>
             map_option written (speaker pl) = Some [[100, 50]] \<and>
             processedFrames pl = 1 \<and> totalFrames pl = 0 \<and> reported pl = [])"
proof -
  have "playerInitialized (demoPlayer [])" "\<not> playing (demoPlayer [])"
    "speaker (demoPlayer []) = Some (demoSpeaker [] [] 0)"
    "map_option written
       (speaker ((demoPlayer [])\<lparr>volume := 1, processedFrames := 1,
                                  speaker := Some (demoSpeaker [] [[100, 50]] 1)\<rparr>))
     = Some [[100, 50]]"
    "processedFrames ((demoPlayer [])\<lparr>volume := 1, processedFrames := 1,
                                       speaker := Some (demoSpeaker [] [[100, 50]] 1)\<rparr>) = 1"
    "totalFrames ((demoPlayer [])\<lparr>volume := 1, processedFrames := 1,
                                   speaker := Some (demoSpeaker [] [[100, 50]] 1)\<rparr>) = 0"
    by (simp_all add: demoPlayer_def demoSpeaker_def)
  then show ?thesis using supplied_observer_not_called by blast
qed

theorem stop_halts_forwarding_witness:
  "playing ((demoPlayer [])\<lparr>playing := True\<rparr>) \<and> streaming goodFrameStarted \<and>
   \<not> playing (snd (stop (goodFrameStarted, (demoPlayer [])\<lparr>playing := True\<rparr>))) \<and>
   fst (stop (goodFrameStarted, (demoPlayer [])\<lparr>playing := True\<rparr>))
     = stopStreaming goodFrameStarted \<and>
   \<not> playing (demoPlayer []) \<and>
   playLoop 1 1 (demoPlatform twoGoodFile) (twoGoodStarted, demoPlayer [])
     = Some (twoGoodStarted, demoPlayer []) \<and>
   streamingCallback (demoPlatform twoGoodFile) [100, 50] 2 demoInfo
       (twoGoodStarted, demoPlayer [])
     = (False, twoGoodStarted, demoPlayer []) \<and>
   forwards (demoPlatform twoGoodFile) 2 ((demoPlayer [(0, True)])\<lparr>playing := True, volume := 1\<rparr>) \<and>
   (\<exists>dec3 pl3 spk3.
      streamingCallback (demoPlatform twoGoodFile) [100, 50] 2 demoInfo
          (twoGoodStarted, (demoPlayer [(0, True)])\<lparr>playing := True, volume := 1\<rparr>)
        = (False, dec3, pl3) \<and>
      \<not> playing pl3 \<and> speaker pl3 = Some spk3 \<and> written spk3 = [[100, 50]]) \<and>
   headroom [(0, True)] = 0 \<and>
   (\<exists>dec' pl' spk'.
      playFileWithProgress 2 1 (demoPlatform twoGoodFile) ''/a.mp3'' 1 False
        (idleDecoder, demoPlayer [(0, True)]) = Some (True, dec', pl') \<and>
      speaker pl' = Some spk' \<and> length (written spk') \<le> 1)"
proof -
  let ?pf = "demoPlatform twoGoodFile"
  let ?on = "(demoPlayer [])\<lparr>playing := True\<rparr>"
  let ?pl2 = "(demoPlayer [(0, True)])\<lparr>playing := True, volume := 1\<rparr>"
  let ?spk2 = "demoSpeaker [(0, True)] [] 0"
  have a0: "playing ?on" by simp
  have a1: "streaming goodFrameStarted" by (simp add: goodFrameStarted_def demoDecoder_def)
  have "\<not> playing (snd (stop (goodFrameStarted, ?on))) \<and>
        \<not> streaming (fst (stop (goodFrameStarted, ?on))) \<and>
        speaker (snd (stop (goodFrameStarted, ?on))) = speaker ?on \<and>
        (streaming goodFrameStarted
           \<longrightarrow> fst (stop (goodFrameStarted, ?on)) = stopStreaming goodFrameStarted)"
    by (rule stop_halts_forwarding [THEN conjunct1, THEN mp]) (rule a0)
  with a1 have a: "\<not> playing (snd (stop (goodFrameStarted, ?on)))"
    "fst (stop (goodFrameStarted, ?on)) = stopStreaming goodFrameStarted" by simp_all
  have b0: "\<not> playing (demoPlayer [])" by (simp add: demoPlayer_def)
  have "stop (twoGoodStarted, demoPlayer []) = (twoGoodStarted, demoPlayer []) \<and>
        playLoop (Suc 0) 1 ?pf (twoGoodStarted, demoPlayer [])
          = Some (twoGoodStarted, demoPlayer []) \<and>
        streamingCallback ?pf [100, 50] 2 demoInfo (twoGoodStarted, demoPlayer [])
          = (False, twoGoodStarted, demoPlayer [])"
    by (rule stop_halts_forwarding [THEN conjunct2, THEN conjunct1, THEN mp]) (rule b0)
  then have b: "playLoop 1 1 ?pf (twoGoodStarted, demoPlayer [])
                  = Some (twoGoodStarted, demoPlayer [])"
    "streamingCallback ?pf [100, 50] 2 demoInfo (twoGoodStarted, demoPlayer [])
       = (False, twoGoodStarted, demoPlayer [])"
    by (simp_all only: One_nat_def)
  have c0: "forwards ?pf 2 ?pl2"
    by (simp add: forwards_def demoPlayer_def demoPlatform_def)
  have c1: "speaker ?pl2 = Some ?spk2" by (simp add: demoPlayer_def)
  have c2: "spkInitialized ?spk2" "active ?spk2" "(2 :: size_t) * 2 \<noteq> 0"
    by (simp_all add: demoSpeaker_def)
  have c3: "(0, True) = (case pending ?spk2 of [] \<Rightarrow> (ESP_OK, False) | e # rest \<Rightarrow> e)"
    by (simp add: demoSpeaker_def)
  have c4: "volume ?pl2 = 1" "written ?spk2 = []" by (simp_all add: demoSpeaker_def)
  obtain c dec3 pl3
    where r: "streamingCallback ?pf [100, 50] 2 demoInfo (twoGoodStarted, ?pl2) = (c, dec3, pl3)"
    by (metis prod_cases3)
  have "(\<exists>spk3. speaker pl3 = Some spk3 \<and>
           written spk3 = written ?spk2 @ [applyVolume (take (unat (2 :: size_t)) [100, 50]) (volume ?pl2)]) \<and>
        c = ((0 :: int) = ESP_OK \<and> \<not> True) \<and> playing pl3 = (\<not> True)"
    by (rule stop_halts_forwarding
          [where pf = ?pf and i = demoInfo and ?dec2.0 = twoGoodStarted and ?dec3.0 = dec3,
           THEN conjunct2, THEN conjunct2, THEN conjunct1, THEN mp])
       (intro conjI c0 c1 c2 c3 r)
  then have "\<not> c" "\<not> playing pl3"
    "\<exists>spk3. speaker pl3 = Some spk3 \<and> written spk3 = [[100, 50]]"
    unfolding c4 by (simp_all add: applyVolume_def)
  with r have c: "\<exists>dec3 pl3 spk3.
      streamingCallback ?pf [100, 50] 2 demoInfo (twoGoodStarted, ?pl2) = (False, dec3, pl3) \<and>
      \<not> playing pl3 \<and> speaker pl3 = Some spk3 \<and> written spk3 = [[100, 50]]"
    by auto
  have d0: "speaker (demoPlayer [(0, True)]) = Some ?spk2" by (simp add: demoPlayer_def)
  have h: "headroom [(0, True)] = 0" by (simp add: headroom_def clean_def)
  have d1: "headroom (pending ?spk2) < length (pending ?spk2)"
    by (simp add: demoSpeaker_def h)
  have d2: "length (written ?spk2) + headroom (pending ?spk2) + 1 = 1"
    by (simp add: demoSpeaker_def h)
  have "\<exists>spk'. speaker ((demoPlayer [])\<lparr>volume := 1, processedFrames := 1,
                            speaker := Some (demoSpeaker [] [[100, 50]] 1)\<rparr>) = Some spk' \<and>
          length (written spk') \<le> length (written ?spk2) + headroom (pending ?spk2) + 1"
    by (rule stop_halts_forwarding
          [where pf = ?pf and k = 2 and m = 1 and path = "''/a.mp3''" and vol = 1
             and obs = False and dec = idleDecoder and pl = "demoPlayer [(0, True)]"
             and r = True and dec' = goodFrameStopped,
           THEN conjunct2, THEN conjunct2, THEN conjunct2, THEN mp])
       (intro conjI d0 d1 stopped_session)
  then have d: "\<exists>dec' pl' spk'.
      playFileWithProgress 2 1 ?pf ''/a.mp3'' 1 False
        (idleDecoder, demoPlayer [(0, True)]) = Some (True, dec', pl') \<and>
      speaker pl' = Some spk' \<and> length (written spk') \<le> 1"
    unfolding d2 using stopped_session by blast
  show ?thesis
    using a0 a1 a b0 b c0 c h d by blast
qed

text \<open>
  Claim C9 as stated fails: \<open>stop()\<close> does more than set the flag. Called while a stream
  is playing, it leaves the decoder not streaming, with its file closed and its stream
  buffer released.
\<close>

theorem stop_also_stops_decoder_counterexample:
  "stop (goodFrameStarted, (demoPlayer [])\<lparr>playing := True\<rparr>)
     \<noteq> (goodFrameStarted, (demoPlayer [])\<lparr>playing := True, playing := False\<rparr>) \<and>
   streaming goodFrameStarted \<and>
   \<not> streaming (fst (stop (goodFrameStarted, (demoPlayer [])\<lparr>playing := True\<rparr>))) \<and>
   streamFile (fst (stop (goodFrameStarted, (demoPlayer [])\<lparr>playing := True\<rparr>))) = None \<and>
   streamBuffer (fst (stop (goodFrameStarted, (demoPlayer [])\<lparr>playing := True\<rparr>))) = []"
  by (simp add: stop_def stopStreaming_def demoPlayer_def goodFrameStarted_def demoDecoder_def)

end
